theory Spec2Isabelle
  imports Complex_Main "HOL-Library.AList" "HOL-Library.FSet"
begin

section \<open>Shared primitives\<close>

subsection \<open>Time\<close>

text \<open>
  A Python \<open>datetime\<close> has microsecond resolution; it is modelled as the number of
  microseconds since a fixed origin, and a \<open>timedelta\<close> as a number of microseconds.
  Every call of \<open>datetime.now()\<close> in the source is an explicit argument of the model,
  one argument per call, so that no relation between two readings of the clock is assumed.
\<close>

type_synonym datetime = int

definition seconds :: "int \<Rightarrow> int" where
  "seconds n = n * 1000000"

definition minutes :: "int \<Rightarrow> int" where
  "minutes n = n * 60000000"

definition hours :: "int \<Rightarrow> int" where
  "hours n = n * 3600000000"

definition days :: "int \<Rightarrow> int" where
  "days n = n * 86400000000"

subsection \<open>Dictionaries\<close>

text \<open>
  A Python \<open>dict\<close> keeps its keys in insertion order and holds each key once. It is
  modelled as an association list: \<open>d[k] = v\<close> is \<open>AList.update k v d\<close> (in place when
  the key is present, appended otherwise), \<open>k in d\<close> is \<open>map_of d k \<noteq> None\<close> and
  \<open>del d[k]\<close> is \<open>AList.delete k d\<close>.
\<close>

type_synonym ('k, 'v) dict = "('k \<times> 'v) list"

definition has_key :: "('k, 'v) dict \<Rightarrow> 'k \<Rightarrow> bool" where
  "has_key d k = (map_of d k \<noteq> None)"

definition dd_get :: "('k, 'v) dict \<Rightarrow> 'k \<Rightarrow> 'v \<Rightarrow> 'v" where
  \<comment> \<open>\<open>d.get(k, default)\<close>; also the value read by \<open>d[k]\<close> on a \<open>defaultdict\<close>\<close>
  "dd_get d k dflt = (case map_of d k of None \<Rightarrow> dflt | Some v \<Rightarrow> v)"

definition dd_touch :: "('k, 'v) dict \<Rightarrow> 'k \<Rightarrow> 'v \<Rightarrow> ('k, 'v) dict" where
  \<comment> \<open>reading \<open>d[k]\<close> on a \<open>defaultdict\<close> stores the default under a missing key\<close>
  "dd_touch d k dflt = (if has_key d k then d else d @ [(k, dflt)])"

subsection \<open>Configuration (config.py)\<close>

text \<open>
  The fields of \<open>BotConfig\<close> that the engine reads. A compiled regular expression is
  represented by its search predicate on a text. \<open>MAX_CAPS_PERCENTAGE\<close> is a Python float;
  it is modelled as the rational it denotes.
\<close>

record bot_config =
  OWNER_ID :: int
  DATA_FILE :: string
  MAX_MESSAGES_PER_MINUTE :: int
  MAX_MESSAGES_PER_HOUR :: int
  MAX_API_CALLS_PER_MINUTE :: int
  MAX_MESSAGE_LENGTH :: int
  MAX_IDENTICAL_MESSAGES :: int
  SPAM_SCORE_THRESHOLD :: int
  AUTO_BAN_SPAM_SCORE :: int
  ENABLE_PROFANITY_FILTER :: bool
  ENABLE_LINK_FILTER :: bool
  ENABLE_CAPS_FILTER :: bool
  MAX_CAPS_PERCENTAGE :: rat
  ENABLE_USER_VERIFICATION :: bool
  SPAM_PATTERNS :: "(string \<Rightarrow> bool) list"
  PROFANITY_WORDS :: "string list"

definition default_config :: "int \<Rightarrow> (string \<Rightarrow> bool) list \<Rightarrow> bot_config" where
  \<comment> \<open>the defaults of \<open>BotConfig\<close>; the owner id and the compiled patterns are arguments\<close>
  "default_config owner pats =
     \<lparr> OWNER_ID = owner,
       DATA_FILE = ''alya_data.json'',
       MAX_MESSAGES_PER_MINUTE = 10,
       MAX_MESSAGES_PER_HOUR = 100,
       MAX_API_CALLS_PER_MINUTE = 5,
       MAX_MESSAGE_LENGTH = 4000,
       MAX_IDENTICAL_MESSAGES = 3,
       SPAM_SCORE_THRESHOLD = 5,
       AUTO_BAN_SPAM_SCORE = 10,
       ENABLE_PROFANITY_FILTER = True,
       ENABLE_LINK_FILTER = True,
       ENABLE_CAPS_FILTER = True,
       MAX_CAPS_PERCENTAGE = 7 / 10,
       ENABLE_USER_VERIFICATION = True,
       SPAM_PATTERNS = pats,
       PROFANITY_WORDS = [''spam'', ''scam'', ''fake''] \<rparr>"

section \<open>Rate limiter (rate_limiter.py)\<close>

text \<open>
  \<open>user_requests\<close>, \<open>api_requests\<close> and \<open>warning_counts\<close> are \<open>defaultdict\<close>s,
  \<open>cooldown_users\<close> is a plain \<open>dict\<close>. Logging is not modelled.
\<close>

record rate_limiter =
  user_requests :: "(int, datetime list) dict"
  api_requests :: "(int, datetime list) dict"
  cooldown_users :: "(int, datetime) dict"
  warning_counts :: "(int, int) dict"

definition rate_limiter_init :: rate_limiter where
  "rate_limiter_init =
     \<lparr> user_requests = [], api_requests = [], cooldown_users = [], warning_counts = [] \<rparr>"

definition clean_old_requests :: "rate_limiter \<Rightarrow> int \<Rightarrow> datetime \<Rightarrow> rate_limiter" where
  "clean_old_requests rl user_id now =
     (let hour_ago = now - hours 1;
          rl1 = rl\<lparr> user_requests :=
                  AList.update user_id
                    (filter (\<lambda>req_time. req_time > hour_ago) (dd_get (user_requests rl) user_id []))
                    (user_requests rl) \<rparr>;
          minute_ago = now - minutes 1
      in rl1\<lparr> api_requests :=
                  AList.update user_id
                    (filter (\<lambda>req_time. req_time > minute_ago) (dd_get (api_requests rl1) user_id []))
                    (api_requests rl1) \<rparr>)"

definition apply_cooldown :: "rate_limiter \<Rightarrow> int \<Rightarrow> string \<Rightarrow> datetime \<Rightarrow> rate_limiter" where
  \<comment> \<open>\<open>now\<close> is the clock reading taken inside \<open>_apply_cooldown\<close>\<close>
  "apply_cooldown rl user_id violation_type now =
     (let wc = AList.update user_id (dd_get (warning_counts rl) user_id 0 + 1) (warning_counts rl);
          cooldown_minutes = min (dd_get wc user_id 0 * 5) 60
      in rl\<lparr> warning_counts := wc,
              cooldown_users := AList.update user_id (now + minutes cooldown_minutes) (cooldown_users rl) \<rparr>)"

definition check_message_rate_limit ::
  "bot_config \<Rightarrow> rate_limiter \<Rightarrow> int \<Rightarrow> datetime \<Rightarrow> datetime \<Rightarrow> bool \<times> rate_limiter" where
  \<comment> \<open>\<open>now_cd\<close> is the clock reading of \<open>_apply_cooldown\<close>, taken only on a breach\<close>
  "check_message_rate_limit cfg rl user_id now now_cd =
     (let minute_ago = now - minutes 1;
          rl1 = rl\<lparr> user_requests := dd_touch (user_requests rl) user_id [] \<rparr>;
          recent_messages = filter (\<lambda>req_time. req_time > minute_ago) (dd_get (user_requests rl1) user_id [])
      in if int (length recent_messages) \<ge> MAX_MESSAGES_PER_MINUTE cfg
         then (True, apply_cooldown rl1 user_id ''message_flood'' now_cd)
         else
           (let hour_ago = now - hours 1;
                hourly_messages = filter (\<lambda>req_time. req_time > hour_ago) (dd_get (user_requests rl1) user_id [])
            in if int (length hourly_messages) \<ge> MAX_MESSAGES_PER_HOUR cfg
               then (True, apply_cooldown rl1 user_id ''message_abuse'' now_cd)
               else (False, rl1)))"

definition check_api_rate_limit ::
  "bot_config \<Rightarrow> rate_limiter \<Rightarrow> int \<Rightarrow> datetime \<Rightarrow> datetime \<Rightarrow> bool \<times> rate_limiter" where
  "check_api_rate_limit cfg rl user_id now now_cd =
     (let minute_ago = now - minutes 1;
          rl1 = rl\<lparr> api_requests := dd_touch (api_requests rl) user_id [] \<rparr>;
          recent_api_calls = filter (\<lambda>req_time. req_time > minute_ago) (dd_get (api_requests rl1) user_id [])
      in if int (length recent_api_calls) \<ge> MAX_API_CALLS_PER_MINUTE cfg
         then (True, apply_cooldown rl1 user_id ''api_abuse'' now_cd)
         else (False, rl1))"

definition is_rate_limited ::
  "bot_config \<Rightarrow> rate_limiter \<Rightarrow> int \<Rightarrow> string \<Rightarrow> datetime \<Rightarrow> datetime \<Rightarrow> bool \<times> rate_limiter" where
  "is_rate_limited cfg rl user_id request_type now now_cd =
     (if has_key (cooldown_users rl) user_id \<and> dd_get (cooldown_users rl) user_id 0 > now
      then (True, rl)
      else
        (let rl1 = (if has_key (cooldown_users rl) user_id
                    then rl\<lparr> cooldown_users := AList.delete user_id (cooldown_users rl) \<rparr>
                    else rl);
             rl2 = clean_old_requests rl1 user_id now
         in if request_type = ''message'' then check_message_rate_limit cfg rl2 user_id now now_cd
            else if request_type = ''api'' then check_api_rate_limit cfg rl2 user_id now now_cd
            else (False, rl2)))"

definition add_request :: "rate_limiter \<Rightarrow> int \<Rightarrow> string \<Rightarrow> datetime \<Rightarrow> rate_limiter" where
  "add_request rl user_id request_type now =
     (if request_type = ''message''
      then rl\<lparr> user_requests :=
                 AList.update user_id (dd_get (user_requests rl) user_id [] @ [now]) (user_requests rl) \<rparr>
      else if request_type = ''api''
      then rl\<lparr> api_requests :=
                 AList.update user_id (dd_get (api_requests rl) user_id [] @ [now]) (api_requests rl) \<rparr>
      else rl)"

definition get_cooldown_remaining :: "rate_limiter \<Rightarrow> int \<Rightarrow> datetime \<Rightarrow> int option" where
  \<comment> \<open>\<open>int(total_seconds())\<close> truncates towards zero; below zero the result is clamped to 0\<close>
  "get_cooldown_remaining rl user_id now =
     (case map_of (cooldown_users rl) user_id of
        None \<Rightarrow> None
      | Some until \<Rightarrow> Some (max 0 ((until - now) div 1000000)))"

definition reset_user_limits :: "rate_limiter \<Rightarrow> int \<Rightarrow> rate_limiter" where
  "reset_user_limits rl user_id =
     rl\<lparr> user_requests := AList.update user_id [] (user_requests rl),
         api_requests := AList.update user_id [] (api_requests rl),
         cooldown_users := (if has_key (cooldown_users rl) user_id
                            then AList.delete user_id (cooldown_users rl)
                            else cooldown_users rl),
         warning_counts := AList.update user_id 0 (warning_counts rl) \<rparr>"

definition rl_get_user_stats :: "rate_limiter \<Rightarrow> int \<Rightarrow> rate_limiter" where
  \<comment> \<open>the state effect of \<open>RateLimiter.get_user_stats\<close>: its reads of the three
      \<open>defaultdict\<close>s store the defaults under a missing key\<close>
  "rl_get_user_stats rl user_id =
     rl\<lparr> user_requests := dd_touch (user_requests rl) user_id [],
         api_requests := dd_touch (api_requests rl) user_id [],
         warning_counts := dd_touch (warning_counts rl) user_id 0 \<rparr>"

text \<open>The operations of the limiter, as one step function on its state.\<close>

datatype rl_op =
    IsRateLimited int string datetime datetime
  | AddRequest int string datetime
  | GetCooldownRemaining int datetime
  | ResetUserLimits int
  | GetUserStats int

fun rl_step :: "bot_config \<Rightarrow> rate_limiter \<Rightarrow> rl_op \<Rightarrow> rate_limiter" where
  "rl_step cfg rl (IsRateLimited u ty now now_cd) = snd (is_rate_limited cfg rl u ty now now_cd)"
| "rl_step cfg rl (AddRequest u ty now) = add_request rl u ty now"
| "rl_step cfg rl (GetCooldownRemaining u now) = rl"
| "rl_step cfg rl (ResetUserLimits u) = reset_user_limits rl u"
| "rl_step cfg rl (GetUserStats u) = rl_get_user_stats rl u"

text \<open>Successive breaches of one user, each with its own clock reading.\<close>

fun breaches :: "rate_limiter \<Rightarrow> int \<Rightarrow> datetime list \<Rightarrow> rate_limiter" where
  "breaches rl user_id [] = rl"
| "breaches rl user_id (t # ts) = breaches (apply_cooldown rl user_id ''message_flood'' t) user_id ts"

text \<open>Concrete limiter states used to evaluate the model.\<close>

definition flood_state :: rate_limiter where
  "flood_state = rate_limiter_init\<lparr> user_requests := [(7, [100, 200])] \<rparr>"

definition strict_config :: bot_config where
  "strict_config = default_config 1 [] \<lparr> MAX_MESSAGES_PER_MINUTE := 2 \<rparr>"

definition cooling_state :: rate_limiter where
  "cooling_state = \<lparr> user_requests = [(7, [100, 200])], api_requests = [(7, [])],
                     cooldown_users = [(7, 1000)], warning_counts = [(7, 1)] \<rparr>"

section \<open>Text primitives\<close>

text \<open>
  A Python \<open>str\<close> is a sequence of code points. The model covers the texts whose code
  points are below 256, one \<open>char\<close> for each code point, so that \<open>length\<close> is \<open>len\<close>.
  On that range the character classes below are those of \<open>str.isupper\<close>, \<open>str.isdigit\<close>,
  \<open>str.isalnum\<close> and \<open>str.isspace\<close>, the case mapping is that of \<open>str.lower\<close> (which maps
  each of these code points to one code point of the range), and a search with
  \<open>re.IGNORECASE\<close> for a pattern of ASCII letters is the search in the lowered text. A
  ratio that Python computes in floating point (\<open>count / len(text)\<close>) is modelled as the
  exact rational.
\<close>

definition ord :: "char \<Rightarrow> nat" where
  "ord c = of_char c"

definition is_upper :: "char \<Rightarrow> bool" where
  \<comment> \<open>\<open>c.isupper()\<close>: \<open>A\<close> to \<open>Z\<close> and the capital letters 192 to 222 of Latin-1, of
      which 215 (the multiplication sign) is not one\<close>
  "is_upper c =
     ((65 \<le> ord c \<and> ord c \<le> 90) \<or> (192 \<le> ord c \<and> ord c \<le> 214)
      \<or> (216 \<le> ord c \<and> ord c \<le> 222))"

definition is_digit :: "char \<Rightarrow> bool" where
  \<comment> \<open>\<open>c.isdigit()\<close>: \<open>0\<close> to \<open>9\<close> and the superscript digits 178, 179 and 185\<close>
  "is_digit c =
     ((48 \<le> ord c \<and> ord c \<le> 57) \<or> ord c = 178 \<or> ord c = 179 \<or> ord c = 185)"

definition is_alnum :: "char \<Rightarrow> bool" where
  \<comment> \<open>\<open>c.isalnum()\<close>: the ASCII letters and digits; the ordinal indicators 170 and 186,
      the micro sign 181, the superscript digits 178, 179 and 185, the fractions 188 to 190;
      the letters 192 to 255 of Latin-1, of which 215 and 247 (multiplication and division
      sign) are not ones\<close>
  "is_alnum c =
     ((48 \<le> ord c \<and> ord c \<le> 57) \<or> (65 \<le> ord c \<and> ord c \<le> 90)
      \<or> (97 \<le> ord c \<and> ord c \<le> 122)
      \<or> ord c = 170 \<or> ord c = 178 \<or> ord c = 179 \<or> ord c = 181 \<or> ord c = 185 \<or> ord c = 186
      \<or> (188 \<le> ord c \<and> ord c \<le> 190)
      \<or> (192 \<le> ord c \<and> ord c \<le> 214) \<or> (216 \<le> ord c \<and> ord c \<le> 246)
      \<or> (248 \<le> ord c \<and> ord c \<le> 255))"

definition is_space :: "char \<Rightarrow> bool" where
  \<comment> \<open>\<open>c.isspace()\<close>, which is also what \<open>str.split()\<close> splits at: tab, line feed,
      vertical tab, form feed, carriage return, the separators 28 to 31, the blank, the
      next-line control 133 and the no-break space 160\<close>
  "is_space c =
     ((9 \<le> ord c \<and> ord c \<le> 13) \<or> (28 \<le> ord c \<and> ord c \<le> 32) \<or> ord c = 133 \<or> ord c = 160)"

definition lower_char :: "char \<Rightarrow> char" where
  \<comment> \<open>\<open>c.lower()\<close>: the capital letters, ASCII and Latin-1, move up by 32; every other
      code point of the range stays\<close>
  "lower_char c = (if is_upper c then char_of (ord c + 32) else c)"

definition lower :: "string \<Rightarrow> string" where
  "lower s = map lower_char s"

fun starts_with :: "string \<Rightarrow> string \<Rightarrow> bool" where
  "starts_with [] s = True"
| "starts_with (p # ps) [] = False"
| "starts_with (p # ps) (c # cs) = (p = c \<and> starts_with ps cs)"

fun contains :: "string \<Rightarrow> string \<Rightarrow> bool" where
  \<comment> \<open>\<open>contains p s\<close> is Python's \<open>p in s\<close>\<close>
  "contains p [] = (p = [])"
| "contains p (c # cs) = (starts_with p (c # cs) \<or> contains p cs)"

fun split_from :: "string \<Rightarrow> string \<Rightarrow> string list" where
  \<comment> \<open>\<open>split_from cur s\<close>: the words of \<open>s\<close>, \<open>cur\<close> being the word read so far\<close>
  "split_from cur [] = (if cur = [] then [] else [cur])"
| "split_from cur (c # cs) =
     (if is_space c then (if cur = [] then split_from [] cs else cur # split_from [] cs)
      else split_from (cur @ [c]) cs)"

definition split :: "string \<Rightarrow> string list" where
  \<comment> \<open>\<open>str.split()\<close> with no argument: maximal runs of non-whitespace\<close>
  "split s = split_from [] s"

fun join :: "string \<Rightarrow> string list \<Rightarrow> string" where
  "join sep [] = []"
| "join sep [x] = x"
| "join sep (x # y # ys) = x @ sep @ join sep (y # ys)"

function str_nat :: "nat \<Rightarrow> string" where
  \<comment> \<open>the decimal digits of a natural number, as \<open>str\<close> prints them\<close>
  "str_nat n = (if n < 10 then [char_of (48 + n)] else str_nat (n div 10) @ [char_of (48 + n mod 10)])"
  by pat_completeness auto
termination
  by (relation "measure id") auto

section \<open>Telegram objects\<close>

text \<open>
  The fields of \<open>telegram.User\<close>, \<open>Chat\<close>, \<open>Message\<close> and \<open>Update\<close> that the engine reads.
  \<open>None\<close> is an absent message, text or username. Every handler dereferences
  \<open>effective_user\<close> and \<open>effective_chat\<close> before it reaches the engine, so both are present.
\<close>

record tg_user =
  tg_id :: int
  tg_username :: "string option"
  tg_first_name :: string

record tg_chat =
  chat_id :: int
  chat_type :: string

record tg_message =
  msg_text :: "string option"

record tg_update =
  upd_message :: "tg_message option"
  effective_user :: tg_user
  effective_chat :: tg_chat

section \<open>Registry (bot_data.py)\<close>

type_synonym chat_entry = "(string \<times> string) list"

record user_stats =
  user_id :: int
  username :: string
  first_seen :: datetime
  last_seen :: datetime
  message_count :: int
  spam_score :: int
  warnings :: int
  verification_status :: string
  last_spam_check :: "datetime option"

record bot_data =
  session_id :: string
  owner_id :: int
  approved_users :: "int fset"
  banned_users :: "(int, datetime) dict"
  group_states :: "(int, bool) dict"
  chat_history :: "chat_entry list"
  user_stats :: "(int, user_stats) dict"
  spam_violations :: "(int, datetime list) dict"
  message_hashes :: "(string, datetime list) dict"
  user_message_counts :: "(int, datetime list) dict"
  rate_limit_violations :: "(int, datetime list) dict"
  api_call_counts :: "(int, datetime list) dict"
  failed_verifications :: "(int, int) dict"
  suspicious_users :: "int fset"
  session_start_time :: datetime
  last_backup_time :: "datetime option"

definition BotData :: "bot_config \<Rightarrow> string \<Rightarrow> datetime \<Rightarrow> bot_data" where
  \<comment> \<open>\<open>BotData()\<close>: \<open>sid\<close> is \<open>str(random.randint(100000, 999999))\<close>, \<open>now\<close> the clock reading\<close>
  "BotData cfg sid now =
     \<lparr> session_id = sid, owner_id = OWNER_ID cfg, approved_users = {||}, banned_users = [],
       group_states = [], chat_history = [], user_stats = [], spam_violations = [],
       message_hashes = [], user_message_counts = [], rate_limit_violations = [],
       api_call_counts = [], failed_verifications = [], suspicious_users = {||},
       session_start_time = now, last_backup_time = None \<rparr>"

definition new_user_stats :: "int \<Rightarrow> string \<Rightarrow> datetime \<Rightarrow> datetime \<Rightarrow> user_stats" where
  "new_user_stats uid name t1 t2 =
     \<lparr> user_id = uid, username = name, first_seen = t1, last_seen = t2, message_count = 0,
       spam_score = 0, warnings = 0, verification_status = ''unverified'',
       last_spam_check = None \<rparr>"

definition get_user_stats :: "bot_data \<Rightarrow> int \<Rightarrow> string \<Rightarrow> datetime \<Rightarrow> datetime \<Rightarrow> bot_data" where
  \<comment> \<open>the registry after \<open>get_user_stats(user_id, username)\<close>; the object it returns is
      the entry of \<open>user_id\<close>. A new entry reads the clock twice (\<open>t1\<close>, \<open>t2\<close>), an
      existing one once (\<open>t1\<close>).\<close>
  "get_user_stats bd uid name t1 t2 =
     (if \<not> has_key (user_stats bd) uid
      then bd\<lparr> user_stats := AList.update uid (new_user_stats uid name t1 t2) (user_stats bd) \<rparr>
      else bd\<lparr> user_stats :=
                 AList.map_entry uid
                   (\<lambda>s. if name \<noteq> ''unknown'' then s\<lparr> last_seen := t1, username := name \<rparr>
                        else s\<lparr> last_seen := t1 \<rparr>)
                   (user_stats bd) \<rparr>)"

definition add_spam_violation ::
  "bot_data \<Rightarrow> int \<Rightarrow> string \<Rightarrow> datetime \<Rightarrow> datetime \<Rightarrow> datetime \<Rightarrow> bot_data" where
  \<comment> \<open>\<open>now\<close> is the reading of \<open>add_spam_violation\<close> itself, \<open>t1\<close> and \<open>t2\<close> those of
      its call of \<open>get_user_stats(user_id)\<close>\<close>
  "add_spam_violation bd uid violation_type now t1 t2 =
     (let day_ago = now - days 1;
          bd1 = bd\<lparr> spam_violations :=
                  AList.update uid
                    (filter (\<lambda>v_time. v_time > day_ago) (dd_get (spam_violations bd) uid [] @ [now]))
                    (spam_violations bd) \<rparr>;
          bd2 = get_user_stats bd1 uid ''unknown'' t1 t2
      in bd2\<lparr> user_stats :=
                 AList.map_entry uid (\<lambda>s. s\<lparr> spam_score := spam_score s + 1 \<rparr>) (user_stats bd2) \<rparr>)"

section \<open>Spam scorer (anti_spam.py)\<close>

text \<open>
  \<open>message_hashes\<close> maps the fingerprint of a text to the (user, time) pairs that sent it,
  \<open>user_message_intervals\<close> a user to the times of the last messages. The fingerprint
  function (\<open>hashlib.md5(...).hexdigest()\<close>) is the argument \<open>md5\<close> of the model.
\<close>

record anti_spam =
  as_message_hashes :: "(string, (int \<times> datetime) list) dict"
  user_message_intervals :: "(int, datetime list) dict"

definition anti_spam_init :: anti_spam where
  "anti_spam_init = \<lparr> as_message_hashes = [], user_message_intervals = [] \<rparr>"

fun pattern_tags :: "(string \<Rightarrow> bool) list \<Rightarrow> nat \<Rightarrow> string \<Rightarrow> string list" where
  \<comment> \<open>the loop of \<open>_check_spam_patterns\<close> from index \<open>i\<close> on\<close>
  "pattern_tags [] i t = []"
| "pattern_tags (p # ps) i t =
     (if p t then (''spam_pattern_'' @ str_nat i) # pattern_tags ps (Suc i) t
      else pattern_tags ps (Suc i) t)"

definition check_spam_patterns :: "bot_config \<Rightarrow> string \<Rightarrow> string list" where
  "check_spam_patterns cfg t = pattern_tags (SPAM_PATTERNS cfg) 0 t"

definition contains_profanity :: "bot_config \<Rightarrow> string \<Rightarrow> bool" where
  "contains_profanity cfg t =
     (if \<not> ENABLE_PROFANITY_FILTER cfg then False
      else list_ex (\<lambda>word. word \<in> set (map lower (PROFANITY_WORDS cfg))) (split (lower t)))"

definition check_excessive_caps :: "bot_config \<Rightarrow> string \<Rightarrow> bool" where
  "check_excessive_caps cfg t =
     (if \<not> ENABLE_CAPS_FILTER cfg \<or> length t < 10 then False
      else (let caps_count = length (filter is_upper t);
                caps_percentage = (of_nat caps_count :: rat) / of_nat (length t)
            in caps_percentage > MAX_CAPS_PERCENTAGE cfg))"

definition check_duplicate_message ::
  "bot_config \<Rightarrow> (string \<Rightarrow> string) \<Rightarrow> anti_spam \<Rightarrow> int \<Rightarrow> string \<Rightarrow> datetime \<Rightarrow> int \<times> anti_spam" where
  "check_duplicate_message cfg md5 a uid msg now =
     (let message_hash = md5 msg;
          hashes0 = (if \<not> has_key (as_message_hashes a) message_hash
                     then AList.update message_hash [] (as_message_hashes a)
                     else as_message_hashes a);
          hour_ago = now - hours 1;
          kept = filter (\<lambda>(u, timestamp). timestamp > hour_ago) (dd_get hashes0 message_hash []);
          user_duplicates = map snd (filter (\<lambda>(u, timestamp). u = uid) kept);
          hashes1 = AList.update message_hash (kept @ [(uid, now)]) hashes0;
          a1 = a\<lparr> as_message_hashes := hashes1 \<rparr>
      in if int (length user_duplicates) \<ge> MAX_IDENTICAL_MESSAGES cfg
         then (int (length user_duplicates) - MAX_IDENTICAL_MESSAGES cfg + 1, a1)
         else (0, a1))"

definition short_link_prefixes :: "string list" where
  \<comment> \<open>the texts matched by \<open>https?://(?:bit\.ly|tinyurl|t\.co|short\.link|goo\.gl)/\<close>,
      in lower case\<close>
  "short_link_prefixes =
     concat (map (\<lambda>host. [''http://'' @ host @ ''/'', ''https://'' @ host @ ''/''])
                 [''bit.ly'', ''tinyurl'', ''t.co'', ''short.link'', ''goo.gl''])"

definition check_suspicious_links :: "bot_config \<Rightarrow> string \<Rightarrow> bool" where
  \<comment> \<open>\<open>re.search\<close> with \<open>re.IGNORECASE\<close>: some match of the pattern occurs in the text,
      letter case ignored\<close>
  "check_suspicious_links cfg t =
     (if \<not> ENABLE_LINK_FILTER cfg then False
      else list_ex (\<lambda>p. contains p (lower t)) short_link_prefixes)"

definition last_n :: "nat \<Rightarrow> 'a list \<Rightarrow> 'a list" where
  \<comment> \<open>the slice \<open>xs[-n:]\<close> for \<open>n > 0\<close>\<close>
  "last_n n xs = drop (length xs - n) xs"

definition check_rapid_messaging :: "anti_spam \<Rightarrow> int \<Rightarrow> datetime \<Rightarrow> bool \<times> anti_spam" where
  "check_rapid_messaging a uid now =
     (let times = last_n 10 (dd_get (user_message_intervals a) uid [] @ [now]);
          a1 = a\<lparr> user_message_intervals := AList.update uid times (user_message_intervals a) \<rparr>;
          thirty_seconds_ago = now - seconds 30;
          recent_messages = filter (\<lambda>timestamp. timestamp > thirty_seconds_ago) times
      in (length recent_messages \<ge> 5, a1))"

definition check_account_age :: "bot_config \<Rightarrow> tg_user \<Rightarrow> int" where
  "check_account_age cfg user =
     (if \<not> ENABLE_USER_VERIFICATION cfg then 0
      else if tg_id user > 5000000000 then 1
      else 0)"

text \<open>The clock readings of one call of \<open>check_spam\<close>, in the order the source takes them.\<close>

record spam_clock =
  t_duplicate :: datetime
  t_rapid :: datetime
  t_stats1 :: datetime
  t_stats2 :: datetime
  t_check :: datetime
  t_violation :: datetime
  t_vstats1 :: datetime
  t_vstats2 :: datetime

definition display_name :: "tg_user \<Rightarrow> string" where
  \<comment> \<open>\<open>user.username or user.first_name\<close>\<close>
  "display_name user =
     (case tg_username user of
        None \<Rightarrow> tg_first_name user
      | Some n \<Rightarrow> (if n = [] then tg_first_name user else n))"

definition add_signal :: "bool \<Rightarrow> int \<Rightarrow> string list \<Rightarrow> int \<times> string list \<Rightarrow> int \<times> string list" where
  \<comment> \<open>one \<open>if cond: spam_score += weight; reasons.append/extend(tags)\<close> on the pair
      (\<open>spam_score\<close>, \<open>reasons\<close>)\<close>
  "add_signal cond weight tags acc =
     (if cond then (fst acc + weight, snd acc @ tags) else acc)"

definition check_spam ::
  "bot_config \<Rightarrow> (string \<Rightarrow> string) \<Rightarrow> anti_spam \<Rightarrow> bot_data \<Rightarrow> tg_update \<Rightarrow> spam_clock
     \<Rightarrow> (bool \<times> string \<times> int) \<times> anti_spam \<times> bot_data" where
  "check_spam cfg md5 a bd upd clk =
     (case upd_message upd of
        None \<Rightarrow> ((False, [], 0), a, bd)
      | Some m \<Rightarrow>
         (case msg_text m of
            None \<Rightarrow> ((False, [], 0), a, bd)
          | Some message_text \<Rightarrow>
             if message_text = [] then ((False, [], 0), a, bd)
             else
               (let user = effective_user upd;
                    acc0 = (0, []);
                    acc1 = add_signal (int (length message_text) > MAX_MESSAGE_LENGTH cfg) 2
                             [''message_too_long''] acc0;
                    pattern_matches = check_spam_patterns cfg message_text;
                    acc2 = add_signal (pattern_matches \<noteq> []) (int (length pattern_matches) * 2)
                             pattern_matches acc1;
                    acc3 = add_signal (contains_profanity cfg message_text) 1 [''profanity''] acc2;
                    acc4 = add_signal (check_excessive_caps cfg message_text) 1 [''excessive_caps''] acc3;
                    dup = check_duplicate_message cfg md5 a (tg_id user) message_text (t_duplicate clk);
                    duplicate_score = fst dup;
                    a1 = snd dup;
                    acc5 = add_signal (duplicate_score > 0) duplicate_score [''duplicate_message''] acc4;
                    acc6 = add_signal (check_suspicious_links cfg message_text) 3 [''suspicious_links''] acc5;
                    rapid = check_rapid_messaging a1 (tg_id user) (t_rapid clk);
                    a2 = snd rapid;
                    acc7 = add_signal (fst rapid) 2 [''rapid_messaging''] acc6;
                    account_age_score = check_account_age cfg user;
                    acc8 = add_signal (account_age_score > 0) account_age_score [''new_account''] acc7;
                    spam_score = fst acc8;
                    reasons = snd acc8;
                    bd1 = get_user_stats bd (tg_id user) (display_name user) (t_stats1 clk) (t_stats2 clk);
                    bd2 = bd1\<lparr> user_stats :=
                            AList.map_entry (tg_id user) (\<lambda>s. s\<lparr> last_spam_check := Some (t_check clk) \<rparr>)
                              (user_stats bd1) \<rparr>;
                    is_spam = (spam_score \<ge> SPAM_SCORE_THRESHOLD cfg);
                    reason_str = join '', '' reasons;
                    bd3 = (if is_spam
                           then add_spam_violation bd2 (tg_id user) reason_str
                                  (t_violation clk) (t_vstats1 clk) (t_vstats2 clk)
                           else bd2)
                in ((is_spam, reason_str, spam_score), a2, bd3))))"

text \<open>
  The same user sending the same text at successive clock readings: the penalties of the
  successive calls of the duplicate check, and the state after the last one.
\<close>

fun dup_run ::
  "bot_config \<Rightarrow> (string \<Rightarrow> string) \<Rightarrow> anti_spam \<Rightarrow> int \<Rightarrow> string \<Rightarrow> datetime list \<Rightarrow> int list \<times> anti_spam" where
  "dup_run cfg md5 a uid msg [] = ([], a)"
| "dup_run cfg md5 a uid msg (t # ts) =
     (let (p, a1) = check_duplicate_message cfg md5 a uid msg t;
          (ps, a2) = dup_run cfg md5 a1 uid msg ts
      in (p # ps, a2))"

definition bucket :: "anti_spam \<Rightarrow> string \<Rightarrow> (int \<times> datetime) list" where
  \<comment> \<open>the entries stored under a fingerprint, none when the fingerprint is unknown\<close>
  "bucket a h = dd_get (as_message_hashes a) h []"

definition prior_count :: "anti_spam \<Rightarrow> string \<Rightarrow> int \<Rightarrow> datetime \<Rightarrow> nat" where
  \<comment> \<open>the entries of a user under a fingerprint that are younger than one hour at \<open>now\<close>\<close>
  "prior_count a h uid now =
     length (filter (\<lambda>(u, t). u = uid) (filter (\<lambda>(u, t). t > now - hours 1) (bucket a h)))"

definition duplicate_penalty :: "bot_config \<Rightarrow> nat \<Rightarrow> int" where
  \<comment> \<open>the penalty named by the specification: \<open>count - limit + 1\<close> once the count has
      reached the limit\<close>
  "duplicate_penalty cfg n =
     (if int n \<ge> MAX_IDENTICAL_MESSAGES cfg then int n - MAX_IDENTICAL_MESSAGES cfg + 1 else 0)"

text \<open>
  The sum of signal weights, with one switch per signal that the configuration can turn
  off. \<open>recent_sent\<close> is the number of messages of the user in the 30 seconds before the
  reading \<open>now\<close>, the current message included, among the last 10.
\<close>

definition recent_sent :: "anti_spam \<Rightarrow> int \<Rightarrow> datetime \<Rightarrow> nat" where
  "recent_sent a uid now =
     length (filter (\<lambda>t. t > now - seconds 30)
               (last_n 10 (dd_get (user_message_intervals a) uid [] @ [now])))"

definition signal_sum ::
  "bool \<Rightarrow> bool \<Rightarrow> bool \<Rightarrow> bool \<Rightarrow> bot_config \<Rightarrow> (string \<Rightarrow> string) \<Rightarrow> anti_spam \<Rightarrow> int \<Rightarrow> string
     \<Rightarrow> datetime \<Rightarrow> datetime \<Rightarrow> int" where
  "signal_sum profanity_on caps_on links_on age_on cfg md5 a uid t now_dup now_rapid =
     (if int (length t) > MAX_MESSAGE_LENGTH cfg then 2 else 0)
     + 2 * int (length (filter (\<lambda>p. p t) (SPAM_PATTERNS cfg)))
     + (if profanity_on \<and> (\<exists>w \<in> set (split (lower t)). w \<in> lower ` set (PROFANITY_WORDS cfg))
        then 1 else 0)
     + (if caps_on \<and> length t \<ge> 10 \<and>
           (of_nat (length (filter is_upper t)) :: rat) / of_nat (length t) > MAX_CAPS_PERCENTAGE cfg
        then 1 else 0)
     + duplicate_penalty cfg (prior_count a (md5 t) uid now_dup)
     + (if links_on \<and> (\<exists>p \<in> set short_link_prefixes. contains p (lower t)) then 3 else 0)
     + (if recent_sent a uid now_rapid \<ge> 5 then 2 else 0)
     + (if age_on \<and> uid > 5000000000 then 1 else 0)"

definition claimed_score ::
  "bot_config \<Rightarrow> (string \<Rightarrow> string) \<Rightarrow> anti_spam \<Rightarrow> int \<Rightarrow> string \<Rightarrow> datetime \<Rightarrow> datetime \<Rightarrow> int" where
  \<comment> \<open>the sum as the specification words it: every signal counts whenever its condition holds\<close>
  "claimed_score = signal_sum True True True True"

definition gated_score ::
  "bot_config \<Rightarrow> (string \<Rightarrow> string) \<Rightarrow> anti_spam \<Rightarrow> int \<Rightarrow> string \<Rightarrow> datetime \<Rightarrow> datetime \<Rightarrow> int" where
  \<comment> \<open>the sum with the profanity, caps, link and new-account signals counted only when
      the configuration enables them\<close>
  "gated_score cfg =
     signal_sum (ENABLE_PROFANITY_FILTER cfg) (ENABLE_CAPS_FILTER cfg) (ENABLE_LINK_FILTER cfg)
       (ENABLE_USER_VERIFICATION cfg) cfg"

text \<open>Concrete updates, clocks and states used to evaluate the scorer.\<close>

definition text_update :: "int \<Rightarrow> string \<Rightarrow> tg_update" where
  "text_update uid t =
     \<lparr> upd_message = Some \<lparr> msg_text = Some t \<rparr>,
       effective_user = \<lparr> tg_id = uid, tg_username = Some ''alice_wong'', tg_first_name = ''Alice'' \<rparr>,
       effective_chat = \<lparr> chat_id = 100, chat_type = ''group'' \<rparr> \<rparr>"

definition empty_update :: tg_update where
  "empty_update =
     \<lparr> upd_message = None,
       effective_user = \<lparr> tg_id = 7, tg_username = Some ''alice_wong'', tg_first_name = ''Alice'' \<rparr>,
       effective_chat = \<lparr> chat_id = 100, chat_type = ''group'' \<rparr> \<rparr>"

definition clock0 :: spam_clock where
  "clock0 = \<lparr> t_duplicate = 1, t_rapid = 2, t_stats1 = 3, t_stats2 = 4, t_check = 5,
              t_violation = 6, t_vstats1 = 7, t_vstats2 = 8 \<rparr>"

definition no_profanity_config :: bot_config where
  "no_profanity_config = default_config 1 [] \<lparr> ENABLE_PROFANITY_FILTER := False \<rparr>"

definition stale_state :: anti_spam where
  \<comment> \<open>user 7 sent the text \<open>hi\<close> at time 0 and at time \<open>hours 2\<close>, user 8 at \<open>hours 2\<close>\<close>
  "stale_state = \<lparr> as_message_hashes = [(''hi'', [(7, 0), (7, hours 2), (8, hours 2)])],
                   user_message_intervals = [] \<rparr>"

definition latin1_capitals :: string where
  \<comment> \<open>two words of five capital letters of Latin-1 (192, 201, 206, 213, 220), a blank
      between them\<close>
  "latin1_capitals =
     [CHR 0xC0, CHR 0xC9, CHR 0xCE, CHR 0xD5, CHR 0xDC, CHR '' '',
      CHR 0xC0, CHR 0xC9, CHR 0xCE, CHR 0xD5, CHR 0xDC]"

definition nbsp_spam :: string where
  \<comment> \<open>the word \<open>spam\<close>, a no-break space (160) and the letter \<open>x\<close>\<close>
  "nbsp_spam = ''spam'' @ [CHR 0xA0] @ ''x''"

section \<open>Moderation engine (moderation.py)\<close>

text \<open>
  The engine talks to the transport through awaited calls, each inside a \<open>try\<close> whose
  handler logs the exception and goes on. A call is modelled by the request it makes; the
  argument \<open>ok\<close> of the model tells for every request whether the transport accepts it
  (\<open>False\<close>: the call raises). Every operation returns the new state and the requests it
  has issued, in order.
\<close>

datatype notice =
    WarningNotice int int string
  | MuteNotice int int string
  | BanNotice int string

datatype transport_call =
    RestrictMember int int bool "datetime option"
  | BanMember int int
  | UnbanMember int int
  | SendMessage int notice
  | DeleteMessage int

record moderation =
  auto_moderation_actions :: "(int, string list) dict"
  mod_warning_counts :: "(int \<times> int, int) dict"
  muted_users :: "(int \<times> int, datetime) dict"

definition moderation_init :: moderation where
  "moderation_init = \<lparr> auto_moderation_actions = [], mod_warning_counts = [], muted_users = [] \<rparr>"

definition mute_user ::
  "(transport_call \<Rightarrow> bool) \<Rightarrow> moderation \<Rightarrow> int \<Rightarrow> int \<Rightarrow> int \<Rightarrow> string \<Rightarrow> datetime \<Rightarrow> datetime
     \<Rightarrow> moderation \<times> transport_call list" where
  \<comment> \<open>\<open>t1\<close> is the clock reading for \<open>until_date\<close>, \<open>t2\<close> the one for the mute record\<close>
  "mute_user ok md chat user mins reason t1 t2 =
     (let key = (chat, user);
          restrict = RestrictMember chat user False (Some (t1 + minutes mins))
      in if \<not> ok restrict then (md, [restrict])
         else (md\<lparr> muted_users := AList.update key (t2 + minutes mins) (muted_users md) \<rparr>,
               [restrict, SendMessage chat (MuteNotice user mins reason)]))"

definition ban_user ::
  "(transport_call \<Rightarrow> bool) \<Rightarrow> moderation \<Rightarrow> int \<Rightarrow> int \<Rightarrow> string \<Rightarrow> moderation \<times> transport_call list" where
  "ban_user ok md chat user reason =
     (let ban = BanMember chat user
      in if \<not> ok ban then (md, [ban])
         else (md, [ban, SendMessage chat (BanNotice user reason)]))"

definition warn_user ::
  "(transport_call \<Rightarrow> bool) \<Rightarrow> moderation \<Rightarrow> int \<Rightarrow> int \<Rightarrow> string \<Rightarrow> datetime \<Rightarrow> datetime
     \<Rightarrow> moderation \<times> transport_call list" where
  "warn_user ok md chat user reason t1 t2 =
     (let key = (chat, user);
          md1 = md\<lparr> mod_warning_counts :=
                  AList.update key (dd_get (mod_warning_counts md) key 0 + 1) (mod_warning_counts md) \<rparr>;
          warning_count = dd_get (mod_warning_counts md1) key 0;
          warning = SendMessage chat (WarningNotice warning_count user reason)
      in if \<not> ok warning then (md1, [warning])
         else if warning_count \<ge> 3
         then (let (md2, calls) = mute_user ok md1 chat user 60 ''3 peringatan spam'' t1 t2
               in (md2, warning # calls))
         else (md1, [warning]))"

definition handle_spam_violation ::
  "bot_config \<Rightarrow> (transport_call \<Rightarrow> bool) \<Rightarrow> moderation \<Rightarrow> tg_update \<Rightarrow> int \<Rightarrow> string
     \<Rightarrow> datetime \<Rightarrow> datetime \<Rightarrow> moderation \<times> transport_call list" where
  \<comment> \<open>\<open>score\<close> is the argument \<open>spam_score\<close>; the \<open>bot_data\<close> argument of the source is
      not used by it\<close>
  "handle_spam_violation cfg ok md upd score reason t1 t2 =
     (let user = effective_user upd;
          chat = effective_chat upd
      in if chat_type chat = ''private'' then (md, [])
         else
           (let (md1, calls) =
                  (if score \<ge> AUTO_BAN_SPAM_SCORE cfg
                   then ban_user ok md (chat_id chat) (tg_id user) reason
                   else if score \<ge> SPAM_SCORE_THRESHOLD cfg + 2
                   then mute_user ok md (chat_id chat) (tg_id user) 30 reason t1 t2
                   else if score \<ge> SPAM_SCORE_THRESHOLD cfg
                   then warn_user ok md (chat_id chat) (tg_id user) reason t1 t2
                   else (md, []))
            in (md1, calls @ (case upd_message upd of
                                None \<Rightarrow> []
                              | Some m \<Rightarrow> [DeleteMessage (chat_id chat)]))))"

definition unmute_user ::
  "(transport_call \<Rightarrow> bool) \<Rightarrow> moderation \<Rightarrow> int \<Rightarrow> int \<Rightarrow> bool \<times> moderation \<times> transport_call list" where
  "unmute_user ok md chat user =
     (let key = (chat, user);
          restore = RestrictMember chat user True None
      in if \<not> ok restore then (False, md, [restore])
         else (True,
               (if has_key (muted_users md) key
                then md\<lparr> muted_users := AList.delete key (muted_users md) \<rparr> else md),
               [restore]))"

definition unban_user ::
  "(transport_call \<Rightarrow> bool) \<Rightarrow> moderation \<Rightarrow> int \<Rightarrow> int \<Rightarrow> bool \<times> moderation \<times> transport_call list" where
  "unban_user ok md chat user = (ok (UnbanMember chat user), md, [UnbanMember chat user])"

definition clear_user_warnings :: "moderation \<Rightarrow> int \<Rightarrow> int \<Rightarrow> moderation" where
  "clear_user_warnings md chat user =
     (let key = (chat, user)
      in if has_key (mod_warning_counts md) key
         then md\<lparr> mod_warning_counts := AList.delete key (mod_warning_counts md) \<rparr>
         else md)"

definition get_user_warnings :: "moderation \<Rightarrow> int \<Rightarrow> int \<Rightarrow> int" where
  "get_user_warnings md chat user = dd_get (mod_warning_counts md) (chat, user) 0"

definition is_user_muted :: "moderation \<Rightarrow> int \<Rightarrow> int \<Rightarrow> datetime \<Rightarrow> bool \<times> moderation" where
  "is_user_muted md chat user now =
     (let key = (chat, user)
      in case map_of (muted_users md) key of
           None \<Rightarrow> (False, md)
         | Some until \<Rightarrow>
             if until \<le> now then (False, md\<lparr> muted_users := AList.delete key (muted_users md) \<rparr>)
             else (True, md))"

fun restore_all ::
  "(transport_call \<Rightarrow> bool) \<Rightarrow> moderation \<Rightarrow> (int \<times> int) list \<Rightarrow> moderation \<times> transport_call list" where
  \<comment> \<open>the loop of \<open>cleanup_expired_restrictions\<close> over the expired keys\<close>
  "restore_all ok md [] = (md, [])"
| "restore_all ok md ((chat, user) # keys) =
     (let restore = RestrictMember chat user True None;
          md1 = (if ok restore then md\<lparr> muted_users := AList.delete (chat, user) (muted_users md) \<rparr>
                 else md);
          (md2, calls) = restore_all ok md1 keys
      in (md2, restore # calls))"

definition cleanup_expired_restrictions ::
  "(transport_call \<Rightarrow> bool) \<Rightarrow> moderation \<Rightarrow> datetime \<Rightarrow> moderation \<times> transport_call list" where
  "cleanup_expired_restrictions ok md now =
     restore_all ok md (map fst (filter (\<lambda>(key, unmute_time). unmute_time \<le> now) (muted_users md)))"

text \<open>The operations of the engine, as one step function on its state.\<close>

datatype mod_op =
    HandleSpamViolation tg_update int string datetime datetime
  | WarnUser int int string datetime datetime
  | MuteUser int int int string datetime datetime
  | BanUser int int string
  | UnmuteUser int int
  | UnbanUser int int
  | ClearUserWarnings int int
  | IsUserMuted int int datetime
  | CleanupExpiredRestrictions datetime

fun mod_step :: "bot_config \<Rightarrow> (transport_call \<Rightarrow> bool) \<Rightarrow> moderation \<Rightarrow> mod_op \<Rightarrow> moderation" where
  "mod_step cfg ok md (HandleSpamViolation upd s reason t1 t2) =
     fst (handle_spam_violation cfg ok md upd s reason t1 t2)"
| "mod_step cfg ok md (WarnUser chat user reason t1 t2) = fst (warn_user ok md chat user reason t1 t2)"
| "mod_step cfg ok md (MuteUser chat user mins reason t1 t2) =
     fst (mute_user ok md chat user mins reason t1 t2)"
| "mod_step cfg ok md (BanUser chat user reason) = fst (ban_user ok md chat user reason)"
| "mod_step cfg ok md (UnmuteUser chat user) = fst (snd (unmute_user ok md chat user))"
| "mod_step cfg ok md (UnbanUser chat user) = fst (snd (unban_user ok md chat user))"
| "mod_step cfg ok md (ClearUserWarnings chat user) = clear_user_warnings md chat user"
| "mod_step cfg ok md (IsUserMuted chat user now) = snd (is_user_muted md chat user now)"
| "mod_step cfg ok md (CleanupExpiredRestrictions now) = fst (cleanup_expired_restrictions ok md now)"

text \<open>Successive warnings of one user in one chat.\<close>

fun warn_run ::
  "(transport_call \<Rightarrow> bool) \<Rightarrow> moderation \<Rightarrow> int \<Rightarrow> int \<Rightarrow> (datetime \<times> datetime) list
     \<Rightarrow> moderation \<times> transport_call list" where
  "warn_run ok md chat user [] = (md, [])"
| "warn_run ok md chat user ((t1, t2) # ts) =
     (let (md1, calls1) = warn_user ok md chat user ''spam'' t1 t2;
          (md2, calls2) = warn_run ok md1 chat user ts
      in (md2, calls1 @ calls2))"

definition is_restrict :: "transport_call \<Rightarrow> bool" where
  "is_restrict c = (case c of RestrictMember chat user allow until \<Rightarrow> True | _ \<Rightarrow> False)"

definition is_ban :: "transport_call \<Rightarrow> bool" where
  "is_ban c = (case c of BanMember chat user \<Rightarrow> True | _ \<Rightarrow> False)"

text \<open>Concrete transports and configurations used to evaluate the engine.\<close>

definition all_ok :: "transport_call \<Rightarrow> bool" where
  "all_ok c = True"

definition no_send :: "transport_call \<Rightarrow> bool" where
  \<comment> \<open>a chat in which the bot may restrict members but not post\<close>
  "no_send c = (case c of SendMessage chat n \<Rightarrow> False | _ \<Rightarrow> True)"

definition early_ban_config :: bot_config where
  "early_ban_config = default_config 1 [] \<lparr> AUTO_BAN_SPAM_SCORE := 6 \<rparr>"

definition two_warnings :: moderation where
  \<comment> \<open>user 7 has two warnings in chat 100\<close>
  "two_warnings = \<lparr> auto_moderation_actions = [], mod_warning_counts = [((100, 7), 2)],
                    muted_users = [] \<rparr>"

section \<open>Account trust (security.py)\<close>

record security =
  sec_suspicious_users :: "int fset"
  sec_failed_verifications :: "(int, int) dict"
  user_sessions :: "(int, string) dict"
  session_timestamps :: "(int, datetime) dict"

definition security_init :: security where
  "security_init = \<lparr> sec_suspicious_users = {||}, sec_failed_verifications = [],
                      user_sessions = [], session_timestamps = [] \<rparr>"

definition is_suspicious_username :: "string \<Rightarrow> bool" where
  "is_suspicious_username name =
     (let username_lower = lower name;
          suspicious_patterns = [''bot'', ''spam'', ''fake'', ''test'', ''promo'', ''ad'', ''marketing'']
      in if list_ex (\<lambda>pattern. contains pattern username_lower) suspicious_patterns then True
         else (let digit_count = length (filter is_digit name)
               in if length name > 0 \<and> (of_nat digit_count :: rat) / of_nat (length name) > 1 / 2
                  then True else False))"

definition is_suspicious_name :: "string \<Rightarrow> bool" where
  "is_suspicious_name name =
     (if name = [] then True
      else (let special_char_count = length (filter (\<lambda>c. \<not> is_alnum c \<and> \<not> is_space c) name)
            in if length name > 0 \<and> (of_nat special_char_count :: rat) / of_nat (length name) > 3 / 10
               then True
               else (let promo_words = [''free'', ''win'', ''prize'', ''money'', ''bitcoin'', ''crypto''];
                         name_lower = lower name
                     in list_ex (\<lambda>word. contains word name_lower) promo_words)))"

definition has_username :: "tg_user \<Rightarrow> bool" where
  \<comment> \<open>the truth value of \<open>user.username\<close>: present and not empty\<close>
  "has_username user = (case tg_username user of None \<Rightarrow> False | Some n \<Rightarrow> n \<noteq> [])"

definition verify_user_account :: "bot_config \<Rightarrow> security \<Rightarrow> tg_user \<Rightarrow> (bool \<times> string) \<times> security" where
  "verify_user_account cfg sec user =
     (if \<not> ENABLE_USER_VERIFICATION cfg then ((True, ''verification_disabled''), sec)
      else
        (let acc0 = (0, []);
             acc1 = add_signal (\<not> has_username user) 1 [''no_username''] acc0;
             acc2 = add_signal (tg_id user > 5000000000) 2 [''potentially_new_account''] acc1;
             acc3 = add_signal (has_username user \<and> is_suspicious_username (the (tg_username user))) 2
                      [''suspicious_username''] acc2;
             acc4 = add_signal (is_suspicious_name (tg_first_name user)) 1 [''suspicious_name''] acc3;
             verification_score = fst acc4;
             issues = snd acc4;
             is_verified = (verification_score < 3);
             reason = (if issues \<noteq> [] then join '', '' issues else ''verified'')
         in if \<not> is_verified
            then ((is_verified, reason), sec\<lparr> sec_suspicious_users := finsert (tg_id user) (sec_suspicious_users sec) \<rparr>)
            else ((is_verified, reason), sec)))"

definition trust_score :: "tg_user \<Rightarrow> int" where
  \<comment> \<open>the additive score of the specification\<close>
  "trust_score user =
     (if \<not> has_username user then 1 else 0)
     + (if tg_id user > 5000000000 then 2 else 0)
     + (if has_username user \<and> is_suspicious_username (the (tg_username user)) then 2 else 0)
     + (if is_suspicious_name (tg_first_name user) then 1 else 0)"

text \<open>Concrete identities used to evaluate the verification.\<close>

definition fresh_anonymous :: tg_user where
  \<comment> \<open>a high id and no username\<close>
  "fresh_anonymous = \<lparr> tg_id = 6000000000, tg_username = None, tg_first_name = ''Bob'' \<rparr>"

definition alice :: tg_user where
  "alice = \<lparr> tg_id = 7, tg_username = Some ''alice_wong'', tg_first_name = ''Alice'' \<rparr>"

definition verification_off_config :: bot_config where
  "verification_off_config = default_config 1 [] \<lparr> ENABLE_USER_VERIFICATION := False \<rparr>"

definition eloise :: tg_user where
  \<comment> \<open>a first name with two accented letters of Latin-1 (201 and 239)\<close>
  "eloise = \<lparr> tg_id = 6000000000, tg_username = Some ''eloise'',
              tg_first_name = [CHR 0xC9, CHR ''l'', CHR ''o'', CHR 0xEF, CHR ''s'', CHR ''e''] \<rparr>"

section \<open>Snapshots (bot_data.py)\<close>

text \<open>
  A snapshot is the dictionary that \<open>to_dict\<close> builds and \<open>from_dict\<close> reads. Each key of
  the dictionary is a field of the record below, \<open>None\<close> when the key is missing (for the
  three fields that the source tests for truth, also when the value is \<open>null\<close>).

  The keys of the inner dictionaries are texts written by \<open>str\<close> and read by \<open>int\<close>, the
  time stamps are texts written by \<open>isoformat\<close> and read by \<open>fromisoformat\<close>. These are
  library functions, inverse to each other on what the program writes. A text is
  represented by what it denotes: \<open>IntKey k\<close> is the text of the integer \<open>k\<close>, \<open>BadKey\<close> a
  text that \<open>int\<close> rejects with \<open>ValueError\<close>; \<open>IsoText t\<close> is the ISO text of the time
  \<open>t\<close>, \<open>BadIso\<close> a text that \<open>fromisoformat\<close> rejects with \<open>ValueError\<close>.
  \<open>list(s)\<close> of a set enumerates it in an order the language leaves open; the model takes
  the ascending one.
\<close>

datatype key_text = IntKey int | BadKey string

datatype iso_text = IsoText datetime | BadIso string

datatype py_error = KeyError | ValueError

definition str_of_int :: "int \<Rightarrow> key_text" where
  "str_of_int k = IntKey k"

definition int_of_str :: "key_text \<Rightarrow> py_error + int" where
  "int_of_str s = (case s of IntKey k \<Rightarrow> Inr k | BadKey x \<Rightarrow> Inl ValueError)"

definition isoformat :: "datetime \<Rightarrow> iso_text" where
  "isoformat t = IsoText t"

definition fromisoformat :: "iso_text \<Rightarrow> py_error + datetime" where
  "fromisoformat s = (case s of IsoText t \<Rightarrow> Inr t | BadIso x \<Rightarrow> Inl ValueError)"

definition truthy :: "iso_text option \<Rightarrow> bool" where
  \<comment> \<open>the truth value of \<open>data.get(key)\<close>: present, not \<open>null\<close> and not the empty text\<close>
  "truthy v = (case v of None \<Rightarrow> False | Some s \<Rightarrow> s \<noteq> BadIso [])"

record stats_json =
  j_user_id :: "int option"
  j_username :: "string option"
  j_first_seen :: "iso_text option"
  j_last_seen :: "iso_text option"
  j_message_count :: "int option"
  j_spam_score :: "int option"
  j_warnings :: "int option"
  j_verification_status :: "string option"
  j_last_spam_check :: "iso_text option"

record snapshot =
  s_session_id :: "string option"
  s_owner_id :: "int option"
  s_approved_users :: "int list option"
  s_banned_users :: "(key_text \<times> iso_text) list option"
  s_group_states :: "(key_text \<times> bool) list option"
  s_chat_history :: "chat_entry list option"
  s_user_stats :: "(key_text \<times> stats_json) list option"
  s_spam_violations :: "(key_text \<times> iso_text list) list option"
  s_suspicious_users :: "int list option"
  s_session_start_time :: "iso_text option"
  s_last_backup_time :: "iso_text option"

definition stats_to_json :: "user_stats \<Rightarrow> stats_json" where
  "stats_to_json v =
     \<lparr> j_user_id = Some (user_id v),
       j_username = Some (username v),
       j_first_seen = Some (isoformat (first_seen v)),
       j_last_seen = Some (isoformat (last_seen v)),
       j_message_count = Some (message_count v),
       j_spam_score = Some (spam_score v),
       j_warnings = Some (warnings v),
       j_verification_status = Some (verification_status v),
       j_last_spam_check = map_option isoformat (last_spam_check v) \<rparr>"

definition to_dict :: "bot_data \<Rightarrow> snapshot" where
  "to_dict b =
     \<lparr> s_session_id = Some (session_id b),
       s_owner_id = Some (owner_id b),
       s_approved_users = Some (sorted_list_of_fset (approved_users b)),
       s_banned_users = Some (map (\<lambda>(k, v). (str_of_int k, isoformat v)) (banned_users b)),
       s_group_states = Some (map (\<lambda>(k, v). (str_of_int k, v)) (group_states b)),
       s_chat_history = Some (last_n 100 (chat_history b)),
       s_user_stats = Some (map (\<lambda>(k, v). (str_of_int k, stats_to_json v)) (user_stats b)),
       s_spam_violations = Some (map (\<lambda>(k, v). (str_of_int k, map isoformat v)) (spam_violations b)),
       s_suspicious_users = Some (sorted_list_of_fset (suspicious_users b)),
       s_session_start_time = Some (isoformat (session_start_time b)),
       s_last_backup_time = map_option isoformat (last_backup_time b) \<rparr>"

definition required :: "'a option \<Rightarrow> py_error + 'a" where
  \<comment> \<open>\<open>d[key]\<close>: a missing key raises \<open>KeyError\<close>\<close>
  "required v = (case v of None \<Rightarrow> Inl KeyError | Some x \<Rightarrow> Inr x)"

definition or_default :: "'a option \<Rightarrow> 'a \<Rightarrow> 'a" where
  \<comment> \<open>\<open>d.get(key, default)\<close>\<close>
  "or_default v dflt = (case v of None \<Rightarrow> dflt | Some x \<Rightarrow> x)"

definition bind :: "py_error + 'a \<Rightarrow> ('a \<Rightarrow> py_error + 'b) \<Rightarrow> py_error + 'b" where
  \<comment> \<open>sequencing: a raised exception ends the evaluation\<close>
  "bind r f = (case r of Inl e \<Rightarrow> Inl e | Inr x \<Rightarrow> f x)"

fun all_ok_list :: "('a \<Rightarrow> py_error + 'b) \<Rightarrow> 'a list \<Rightarrow> py_error + 'b list" where
  \<comment> \<open>a list comprehension whose element expression may raise\<close>
  "all_ok_list f [] = Inr []"
| "all_ok_list f (x # xs) = bind (f x) (\<lambda>y. bind (all_ok_list f xs) (\<lambda>ys. Inr (y # ys)))"

fun load_items ::
  "('a \<Rightarrow> py_error + 'b) \<Rightarrow> (key_text \<times> 'a) list \<Rightarrow> (int, 'b) dict \<Rightarrow> py_error + (int, 'b) dict" where
  \<comment> \<open>the loop \<open>for k, v in items: d[int(k)] = conv(v)\<close>, the key read before the value\<close>
  "load_items conv [] d = Inr d"
| "load_items conv ((k, v) # items) d =
     bind (int_of_str k) (\<lambda>i. bind (conv v) (\<lambda>w. load_items conv items (AList.update i w d)))"

definition stats_of_json :: "stats_json \<Rightarrow> py_error + user_stats" where
  \<comment> \<open>the call \<open>UserStats(...)\<close> of \<open>from_dict\<close>, its arguments evaluated in order\<close>
  "stats_of_json sd =
     bind (required (j_user_id sd)) (\<lambda>uid.
     bind (required (j_username sd)) (\<lambda>name.
     bind (required (j_first_seen sd)) (\<lambda>fs_text.
     bind (fromisoformat fs_text) (\<lambda>fs.
     bind (required (j_last_seen sd)) (\<lambda>ls_text.
     bind (fromisoformat ls_text) (\<lambda>ls.
     bind (if truthy (j_last_spam_check sd)
           then bind (required (j_last_spam_check sd)) (\<lambda>c. bind (fromisoformat c) (\<lambda>t. Inr (Some t)))
           else Inr None) (\<lambda>lsc.
     Inr \<lparr> user_id = uid, username = name, first_seen = fs, last_seen = ls,
           message_count = or_default (j_message_count sd) 0,
           spam_score = or_default (j_spam_score sd) 0,
           warnings = or_default (j_warnings sd) 0,
           verification_status = or_default (j_verification_status sd) ''unverified'',
           last_spam_check = lsc \<rparr>)))))))"

definition from_dict ::
  "bot_config \<Rightarrow> snapshot \<Rightarrow> string \<Rightarrow> string \<Rightarrow> datetime \<Rightarrow> py_error + bot_data" where
  \<comment> \<open>\<open>sid1\<close> is the random id drawn by \<open>cls()\<close>, \<open>sid2\<close> the one drawn for the default
      of \<open>session_id\<close>, \<open>now\<close> the clock reading of \<open>cls()\<close>\<close>
  "from_dict cfg data sid1 sid2 now =
     (let b0 = BotData cfg sid1 now;
          b1 = b0\<lparr> session_id := or_default (s_session_id data) sid2,
                    owner_id := or_default (s_owner_id data) (OWNER_ID cfg),
                    approved_users := fset_of_list (or_default (s_approved_users data) []) \<rparr>
      in bind (load_items fromisoformat (or_default (s_banned_users data) []) []) (\<lambda>banned.
         bind (load_items Inr (or_default (s_group_states data) []) []) (\<lambda>groups.
         let b2 = b1\<lparr> banned_users := banned, group_states := groups,
                       chat_history := or_default (s_chat_history data) [] \<rparr>
         in bind (load_items stats_of_json (or_default (s_user_stats data) []) (user_stats b2)) (\<lambda>stats.
            bind (load_items (all_ok_list fromisoformat) (or_default (s_spam_violations data) [])
                    (spam_violations b2)) (\<lambda>violations.
            let b3 = b2\<lparr> user_stats := stats, spam_violations := violations,
                          suspicious_users := fset_of_list (or_default (s_suspicious_users data) []) \<rparr>
            in bind (if truthy (s_session_start_time data)
                     then bind (required (s_session_start_time data)) fromisoformat
                     else Inr (session_start_time b3)) (\<lambda>start.
               bind (if truthy (s_last_backup_time data)
                     then bind (required (s_last_backup_time data)) (\<lambda>c. bind (fromisoformat c) (\<lambda>t. Inr (Some t)))
                     else Inr (last_backup_time b3)) (\<lambda>backup.
               Inr (b3\<lparr> session_start_time := start, last_backup_time := backup \<rparr>))))))))"




definition dict_ok :: "bot_data \<Rightarrow> bool" where
  \<comment> \<open>every dictionary that \<open>to_dict\<close> writes holds each key once, as a Python \<open>dict\<close> does\<close>
  "dict_ok b =
     (distinct (map fst (banned_users b)) \<and> distinct (map fst (group_states b)) \<and>
      distinct (map fst (user_stats b)) \<and> distinct (map fst (spam_violations b)))"

definition restored :: "bot_data \<Rightarrow> bot_data" where
  \<comment> \<open>what a snapshot keeps of a state: the last 100 history entries, and none of the
      five tables that \<open>to_dict\<close> does not write\<close>
  "restored b =
     b\<lparr> chat_history := last_n 100 (chat_history b), message_hashes := [],
        user_message_counts := [], rate_limit_violations := [], api_call_counts := [],
        failed_verifications := [] \<rparr>"


text \<open>Concrete states and files used to evaluate the snapshot functions.\<close>

definition populated :: bot_data where
  "populated =
     \<lparr> session_id = ''123456'', owner_id = 1, approved_users = {|7, 8|},
       banned_users = [(9, 5000)], group_states = [(100, True)],
       chat_history = [[(''user_id'', ''7'')]],
       user_stats = [(7, new_user_stats 7 ''alice_wong'' 10 20 \<lparr> last_spam_check := Some 30 \<rparr>)],
       spam_violations = [(9, [40, 50])],
       message_hashes = [], user_message_counts = [(7, [60])], rate_limit_violations = [],
       api_call_counts = [], failed_verifications = [], suspicious_users = {|9|},
       session_start_time = 1, last_backup_time = Some 70 \<rparr>"



section \<open>Properties of the rate limiter\<close>


lemma dd_get_update_same: "dd_get (AList.update k v d) k dflt = v"
  by (simp add: dd_get_def update_conv')

lemma dd_get_update_other: "k' \<noteq> k \<Longrightarrow> dd_get (AList.update k v d) k' dflt = dd_get d k' dflt"
  by (simp add: dd_get_def update_conv')

lemma map_of_dd_touch: "map_of (dd_touch d k dflt) k = Some (dd_get d k dflt)"
  by (auto simp: dd_touch_def dd_get_def has_key_def map_add_def)

lemma dd_get_dd_touch: "dd_get (dd_touch d k dflt) k' dflt' = (if k' = k then dd_get d k dflt else dd_get d k' dflt')"
  apply (auto simp: dd_touch_def dd_get_def has_key_def split: option.splits)
  done

lemma apply_cooldown_count:
  "dd_get (warning_counts (apply_cooldown rl u v now)) u 0 = dd_get (warning_counts rl) u 0 + 1"
  by (simp add: apply_cooldown_def Let_def dd_get_update_same)

lemma apply_cooldown_until:
  "map_of (cooldown_users (apply_cooldown rl u v now)) u =
     Some (now + minutes (min ((dd_get (warning_counts rl) u 0 + 1) * 5) 60))"
  by (simp add: apply_cooldown_def Let_def dd_get_update_same update_conv')

lemma breaches_count:
  "dd_get (warning_counts (breaches rl u ts)) u 0 = dd_get (warning_counts rl) u 0 + int (length ts)"
  by (induction ts arbitrary: rl) (simp_all add: apply_cooldown_count)

lemma breaches_snoc:
  "breaches rl u (ts @ [t]) = apply_cooldown (breaches rl u ts) u ''message_flood'' t"
  by (induction ts arbitrary: rl) simp_all

lemma breaches_cooldown:
  assumes "ts \<noteq> []"
  shows "map_of (cooldown_users (breaches rl u ts)) u =
     Some (last ts + minutes (min ((dd_get (warning_counts rl) u 0 + int (length ts)) * 5) 60))"
proof -
  obtain ys y where ts: "ts = ys @ [y]"
    using assms by (metis append_butlast_last_id)
  show ?thesis
    unfolding ts breaches_snoc
    by (simp add: apply_cooldown_until breaches_count algebra_simps)
qed

lemma check_message_breach:
  assumes "check_message_rate_limit cfg rl u now now_cd = (True, rl')"
  shows "\<exists>v rl3. rl' = apply_cooldown rl3 u v now_cd \<and> warning_counts rl3 = warning_counts rl"
  using assms unfolding check_message_rate_limit_def Let_def
  by (auto split: if_splits intro!: exI [where x = "rl\<lparr> user_requests := dd_touch (user_requests rl) u [] \<rparr>"])

lemma check_api_breach:
  assumes "check_api_rate_limit cfg rl u now now_cd = (True, rl')"
  shows "\<exists>v rl3. rl' = apply_cooldown rl3 u v now_cd \<and> warning_counts rl3 = warning_counts rl"
  using assms unfolding check_api_rate_limit_def Let_def
  by (auto split: if_splits intro!: exI [where x = "rl\<lparr> api_requests := dd_touch (api_requests rl) u [] \<rparr>"])

lemma warning_counts_clean: "warning_counts (clean_old_requests rl u now) = warning_counts rl"
  by (simp add: clean_old_requests_def Let_def)

lemma cooldown_users_clean: "cooldown_users (clean_old_requests rl u now) = cooldown_users rl"
  by (simp add: clean_old_requests_def Let_def)

lemma is_rate_limited_breach:
  assumes idle: "\<not> (has_key (cooldown_users rl) u \<and> dd_get (cooldown_users rl) u 0 > now)"
    and res: "is_rate_limited cfg rl u ty now now_cd = (True, rl')"
  shows "dd_get (warning_counts rl') u 0 = dd_get (warning_counts rl) u 0 + 1 \<and>
         map_of (cooldown_users rl') u =
           Some (now_cd + minutes (min (dd_get (warning_counts rl') u 0 * 5) 60))"
proof -
  define rl1 where "rl1 = (if has_key (cooldown_users rl) u
                    then rl\<lparr> cooldown_users := AList.delete u (cooldown_users rl) \<rparr>
                    else rl)"
  define rl2 where "rl2 = clean_old_requests rl1 u now"
  have wc: "warning_counts rl2 = warning_counts rl"
    by (simp add: rl2_def rl1_def warning_counts_clean)
  from idle res have "ty = ''message'' \<and> check_message_rate_limit cfg rl2 u now now_cd = (True, rl')
      \<or> ty = ''api'' \<and> check_api_rate_limit cfg rl2 u now now_cd = (True, rl')"
    unfolding is_rate_limited_def rl2_def rl1_def Let_def
    by (auto split: if_splits)
  then obtain v rl3 where rl': "rl' = apply_cooldown rl3 u v now_cd" and wc3: "warning_counts rl3 = warning_counts rl2"
    using check_message_breach check_api_breach by blast
  show ?thesis
    by (simp add: rl' apply_cooldown_count apply_cooldown_until wc3 wc)
qed

text \<open>
  Claim C4, as the code has it. Every call of \<open>_apply_cooldown\<close> adds one to the user's
  violation counter and stores a cooldown that ends \<open>min (counter * 5) 60\<close> minutes after
  the clock reading of that call; a call of \<open>is_rate_limited\<close> that finds no active cooldown
  and answers \<open>True\<close> is such a breach. Starting from a counter of 0 and with no reset in
  between, the first breach gives 5 minutes, the fourth 20 minutes, the tenth 50 minutes, and
  the cap of 60 minutes holds from the twelfth breach on.
\<close>
theorem progressive_cooldown:
  "(let rl' = apply_cooldown rl u v now
    in dd_get (warning_counts rl') u 0 = dd_get (warning_counts rl) u 0 + 1 \<and>
       map_of (cooldown_users rl') u =
         Some (now + minutes (min (dd_get (warning_counts rl') u 0 * 5) 60)))
   \<and> (\<not> (has_key (cooldown_users rl) u \<and> dd_get (cooldown_users rl) u 0 > now) \<and>
        fst (is_rate_limited cfg rl u ty now now_cd)
      \<longrightarrow> (let rl' = snd (is_rate_limited cfg rl u ty now now_cd)
           in dd_get (warning_counts rl') u 0 = dd_get (warning_counts rl) u 0 + 1 \<and>
              map_of (cooldown_users rl') u =
                Some (now_cd + minutes (min (dd_get (warning_counts rl') u 0 * 5) 60))))
   \<and> (dd_get (warning_counts rl) u 0 = 0 \<and> ts \<noteq> []
      \<longrightarrow> dd_get (warning_counts (breaches rl u ts)) u 0 = int (length ts) \<and>
          map_of (cooldown_users (breaches rl u ts)) u =
            Some (last ts + minutes (min (int (length ts) * 5) 60)))
   \<and> (dd_get (warning_counts rl) u 0 = 0
      \<longrightarrow> map_of (cooldown_users (breaches rl u [t1])) u = Some (t1 + minutes 5))
   \<and> (dd_get (warning_counts rl) u 0 = 0
      \<longrightarrow> map_of (cooldown_users (breaches rl u [t1, t2, t3, t4])) u = Some (t4 + minutes 20))
   \<and> (dd_get (warning_counts rl) u 0 = 0 \<and> length ts = 10
      \<longrightarrow> map_of (cooldown_users (breaches rl u ts)) u = Some (last ts + minutes 50))
   \<and> (dd_get (warning_counts rl) u 0 = 0 \<and> length ts \<ge> 12
      \<longrightarrow> map_of (cooldown_users (breaches rl u ts)) u = Some (last ts + minutes 60))"
proof -
  have p1: "dd_get (warning_counts (apply_cooldown rl u v now)) u 0 = dd_get (warning_counts rl) u 0 + 1"
    by (rule apply_cooldown_count)
  have p2: "map_of (cooldown_users (apply_cooldown rl u v now)) u =
         Some (now + minutes (min (dd_get (warning_counts (apply_cooldown rl u v now)) u 0 * 5) 60))"
    by (simp add: apply_cooldown_count apply_cooldown_until)
  have p3: "dd_get (warning_counts (snd (is_rate_limited cfg rl u ty now now_cd))) u 0
              = dd_get (warning_counts rl) u 0 + 1 \<and>
            map_of (cooldown_users (snd (is_rate_limited cfg rl u ty now now_cd))) u =
              Some (now_cd + minutes (min (dd_get (warning_counts (snd (is_rate_limited cfg rl u ty now now_cd))) u 0 * 5) 60))"
    if "\<not> (has_key (cooldown_users rl) u \<and> dd_get (cooldown_users rl) u 0 > now)"
      and "fst (is_rate_limited cfg rl u ty now now_cd)"
    using is_rate_limited_breach [OF that(1), of cfg ty now_cd "snd (is_rate_limited cfg rl u ty now now_cd)"] that(2)
    by (cases "is_rate_limited cfg rl u ty now now_cd") simp
  have p4: "map_of (cooldown_users (breaches rl u xs)) u =
            Some (last xs + minutes (min (int (length xs) * 5) 60))"
    if "dd_get (warning_counts rl) u 0 = 0" and "xs \<noteq> []" for xs
    using breaches_cooldown [OF that(2), of rl u] that(1) by simp
  have p5: "dd_get (warning_counts (breaches rl u ts)) u 0 = int (length ts)"
    if "dd_get (warning_counts rl) u 0 = 0"
    using breaches_count [of rl u ts] that by simp
  have p6: "map_of (cooldown_users (breaches rl u [t1])) u = Some (t1 + minutes 5)"
    if "dd_get (warning_counts rl) u 0 = 0"
    using p4 [OF that, of "[t1]"] by simp
  have p7: "map_of (cooldown_users (breaches rl u [t1, t2, t3, t4])) u = Some (t4 + minutes 20)"
    if "dd_get (warning_counts rl) u 0 = 0"
    using p4 [OF that, of "[t1, t2, t3, t4]"] by simp
  have p8: "map_of (cooldown_users (breaches rl u ts)) u = Some (last ts + minutes 50)"
    if "dd_get (warning_counts rl) u 0 = 0" and "length ts = 10"
  proof -
    from that(2) have "ts \<noteq> []" by auto
    from p4 [OF that(1) this] that(2) show ?thesis by simp
  qed
  have p9: "map_of (cooldown_users (breaches rl u ts)) u = Some (last ts + minutes 60)"
    if "dd_get (warning_counts rl) u 0 = 0" and "length ts \<ge> 12"
  proof -
    from that(2) have "ts \<noteq> []" by auto
    from p4 [OF that(1) this] that(2) show ?thesis by (simp add: min_def)
  qed
  show ?thesis
    unfolding Let_def using p1 p2 p3 p4 p5 p6 p7 p8 p9 by blast
qed

text \<open>
  Claim C4 states that the tenth breach is capped at 60 minutes. Ten breaches from a fresh
  limiter leave a cooldown of \<open>min (10 * 5) 60 = 50\<close> minutes.
\<close>

theorem tenth_breach_counterexample:
  "map_of (cooldown_users (breaches rate_limiter_init 7 [1, 2, 3, 4, 5, 6, 7, 8, 9, 10])) 7
     = Some (10 + minutes 50)
   \<and> map_of (cooldown_users (breaches rate_limiter_init 7 [1, 2, 3, 4, 5, 6, 7, 8, 9, 10])) 7
     \<noteq> Some (10 + minutes 60)"
  by (simp add: rate_limiter_init_def apply_cooldown_def dd_get_def minutes_def Let_def)

lemma flood_eval:
  "is_rate_limited strict_config flood_state 7 ''message'' 300 301
     = (True, flood_state \<lparr> api_requests := [(7, [])], cooldown_users := [(7, 301 + minutes 5)],
                             warning_counts := [(7, 1)] \<rparr>)"
  by (simp add: rate_limiter_init_def flood_state_def strict_config_def dd_get_def is_rate_limited_def has_key_def
      clean_old_requests_def check_message_rate_limit_def apply_cooldown_def default_config_def
      dd_touch_def hours_def minutes_def Let_def)

text \<open>
  The theorem at concrete inputs: a user with two requests in the last minute under a
  per-minute limit of 2, and runs of 1, 4, 10 and 12 breaches from a fresh limiter.
\<close>

theorem progressive_cooldown_witness:
  "fst (is_rate_limited strict_config flood_state 7 ''message'' 300 301)
   \<and> map_of (cooldown_users (snd (is_rate_limited strict_config flood_state 7 ''message'' 300 301))) 7
       = Some (301 + minutes 5)
   \<and> map_of (cooldown_users (breaches rate_limiter_init 7 [10])) 7 = Some (10 + minutes 5)
   \<and> map_of (cooldown_users (breaches rate_limiter_init 7 [10, 20, 30, 40])) 7 = Some (40 + minutes 20)
   \<and> map_of (cooldown_users (breaches rate_limiter_init 7 [1, 2, 3, 4, 5, 6, 7, 8, 9, 10])) 7
       = Some (10 + minutes 50)
   \<and> map_of (cooldown_users (breaches rate_limiter_init 7 [1, 2, 3, 4, 5, 6, 7, 8, 9, 10, 11, 12])) 7
       = Some (12 + minutes 60)"
proof -
  have z: "dd_get (warning_counts rate_limiter_init) 7 0 = 0"
    by (simp add: rate_limiter_init_def dd_get_def)
  have idle: "\<not> (has_key (cooldown_users flood_state) 7 \<and> dd_get (cooldown_users flood_state) 7 0 > 300)"
    by (simp add: flood_state_def rate_limiter_init_def has_key_def)
  have w0: "dd_get (warning_counts flood_state) 7 0 = 0"
    by (simp add: flood_state_def rate_limiter_init_def dd_get_def)
  have hit: "fst (is_rate_limited strict_config flood_state 7 ''message'' 300 301)"
    by (simp add: flood_eval)
  note a = progressive_cooldown [where rl = rate_limiter_init and u = 7 and ts = "[1, 2, 3, 4, 5, 6, 7, 8, 9, 10]"
      and ?t1.0 = 10 and ?t2.0 = 20 and ?t3.0 = 30 and ?t4.0 = 40]
  note b = progressive_cooldown [where rl = rate_limiter_init and u = 7 and ts = "[1, 2, 3, 4, 5, 6, 7, 8, 9, 10, 11, 12]"]
  note c = progressive_cooldown [where rl = flood_state and u = 7 and ty = "''message''" and now = 300
      and now_cd = 301 and cfg = strict_config]
  from c idle hit w0 have c': "map_of (cooldown_users (snd (is_rate_limited strict_config flood_state 7 ''message'' 300 301))) 7
       = Some (301 + minutes 5)"
    unfolding Let_def by simp
  from a z have a1: "map_of (cooldown_users (breaches rate_limiter_init 7 [10])) 7 = Some (10 + minutes 5)"
    and a4: "map_of (cooldown_users (breaches rate_limiter_init 7 [10, 20, 30, 40])) 7 = Some (40 + minutes 20)"
    and a10: "map_of (cooldown_users (breaches rate_limiter_init 7 [1, 2, 3, 4, 5, 6, 7, 8, 9, 10])) 7
       = Some (10 + minutes 50)"
    by simp_all
  from b z have b12: "map_of (cooldown_users (breaches rate_limiter_init 7 [1, 2, 3, 4, 5, 6, 7, 8, 9, 10, 11, 12])) 7
       = Some (12 + minutes 60)"
    by simp
  from hit c' a1 a4 a10 b12 show ?thesis by blast
qed

lemma has_key_delete_same: "\<not> has_key (AList.delete k d) k"
  by (simp add: has_key_def delete_conv')

lemma map_of_delete_other: "k' \<noteq> k \<Longrightarrow> map_of (AList.delete k d) k' = map_of d k'"
  by (simp add: delete_conv')

lemma cooldown_apply_other:
  "u' \<noteq> u \<Longrightarrow> map_of (cooldown_users (apply_cooldown rl u' v t)) u = map_of (cooldown_users rl) u"
  by (simp add: apply_cooldown_def Let_def update_conv')

lemma cooldown_check_message_other:
  "u' \<noteq> u \<Longrightarrow> map_of (cooldown_users (snd (check_message_rate_limit cfg rl u' now now_cd))) u
     = map_of (cooldown_users rl) u"
  by (simp add: check_message_rate_limit_def Let_def cooldown_apply_other)

lemma cooldown_check_api_other:
  "u' \<noteq> u \<Longrightarrow> map_of (cooldown_users (snd (check_api_rate_limit cfg rl u' now now_cd))) u
     = map_of (cooldown_users rl) u"
  by (simp add: check_api_rate_limit_def Let_def cooldown_apply_other)

lemma cooldown_is_rate_limited_other:
  "u' \<noteq> u \<Longrightarrow> map_of (cooldown_users (snd (is_rate_limited cfg rl u' ty now now_cd))) u
     = map_of (cooldown_users rl) u"
  by (simp add: is_rate_limited_def Let_def cooldown_check_message_other cooldown_check_api_other
      cooldown_users_clean map_of_delete_other)

lemma is_rate_limited_active:
  "has_key (cooldown_users rl) u \<Longrightarrow> dd_get (cooldown_users rl) u 0 > now \<Longrightarrow>
   is_rate_limited cfg rl u ty now now_cd = (True, rl)"
  by (simp add: is_rate_limited_def)

lemma is_rate_limited_expired:
  "has_key (cooldown_users rl) u \<Longrightarrow> \<not> dd_get (cooldown_users rl) u 0 > now \<Longrightarrow>
   is_rate_limited cfg rl u ty now now_cd =
     is_rate_limited cfg (rl\<lparr> cooldown_users := AList.delete u (cooldown_users rl) \<rparr>) u ty now now_cd"
  by (simp add: is_rate_limited_def has_key_delete_same)

lemma cooldown_check_message_False:
  "\<not> fst (check_message_rate_limit cfg rl u now now_cd) \<Longrightarrow>
   cooldown_users (snd (check_message_rate_limit cfg rl u now now_cd)) = cooldown_users rl"
  by (simp add: check_message_rate_limit_def Let_def split: if_splits)

lemma cooldown_check_api_False:
  "\<not> fst (check_api_rate_limit cfg rl u now now_cd) \<Longrightarrow>
   cooldown_users (snd (check_api_rate_limit cfg rl u now now_cd)) = cooldown_users rl"
  by (simp add: check_api_rate_limit_def Let_def split: if_splits)

lemma is_rate_limited_expired_clear:
  assumes "has_key (cooldown_users rl) u" and "\<not> dd_get (cooldown_users rl) u 0 > now"
    and "\<not> fst (is_rate_limited cfg rl u ty now now_cd)"
  shows "\<not> has_key (cooldown_users (snd (is_rate_limited cfg rl u ty now now_cd))) u"
  using assms
  by (auto simp: is_rate_limited_def Let_def cooldown_check_message_False cooldown_check_api_False
      cooldown_users_clean has_key_delete_same split: if_splits)

lemma rl_step_cooldown_frame:
  assumes "map_of (cooldown_users (rl_step cfg rl op)) u \<noteq> map_of (cooldown_users rl) u"
  shows "(\<exists>ty now now_cd. op = IsRateLimited u ty now now_cd \<and>
            \<not> (has_key (cooldown_users rl) u \<and> dd_get (cooldown_users rl) u 0 > now))
         \<or> op = ResetUserLimits u"
proof (cases op)
  case (IsRateLimited u' ty now now_cd)
  show ?thesis
  proof (cases "u' = u")
    case True
    have "\<not> (has_key (cooldown_users rl) u \<and> dd_get (cooldown_users rl) u 0 > now)"
      using assms IsRateLimited True by (auto simp: is_rate_limited_active)
    then show ?thesis using IsRateLimited True by simp
  next
    case False
    then show ?thesis using assms IsRateLimited by (simp add: cooldown_is_rate_limited_other)
  qed
next
  case (AddRequest u' ty now)
  then show ?thesis using assms by (auto simp: add_request_def split: if_splits)
next
  case (GetCooldownRemaining u' now)
  then show ?thesis using assms by simp
next
  case (ResetUserLimits u')
  then show ?thesis using assms
    by (cases "u' = u") (auto simp: reset_user_limits_def map_of_delete_other split: if_splits)
next
  case (GetUserStats u')
  then show ?thesis using assms by (simp add: rl_get_user_stats_def)
qed

lemma reset_user_limits_clears:
  "\<not> has_key (cooldown_users (reset_user_limits rl u)) u \<and>
   map_of (user_requests (reset_user_limits rl u)) u = Some [] \<and>
   map_of (api_requests (reset_user_limits rl u)) u = Some [] \<and>
   map_of (warning_counts (reset_user_limits rl u)) u = Some 0"
  by (simp add: reset_user_limits_def has_key_delete_same update_conv')

text \<open>
  Claim C5. While the stored cooldown of a user lies after the clock reading,
  \<open>is_rate_limited\<close> answers \<open>True\<close> for every request type and returns the limiter
  unchanged. A check at or after the expiry deletes the entry before the windows are
  evaluated, so the entry is gone when that check answers \<open>False\<close>. No operation of the
  limiter changes the cooldown entry of a user other than a check of that user with no
  active cooldown, or \<open>reset_user_limits\<close> for that user, which removes the entry,
  empties both request windows and sets the violation counter to 0.
\<close>
theorem cooldown_lifecycle:
  "(has_key (cooldown_users rl) u \<and> dd_get (cooldown_users rl) u 0 > now
      \<longrightarrow> is_rate_limited cfg rl u ty now now_cd = (True, rl))
   \<and> (has_key (cooldown_users rl) u \<and> \<not> dd_get (cooldown_users rl) u 0 > now
      \<longrightarrow> is_rate_limited cfg rl u ty now now_cd =
            is_rate_limited cfg (rl\<lparr> cooldown_users := AList.delete u (cooldown_users rl) \<rparr>) u ty now now_cd
          \<and> (\<not> fst (is_rate_limited cfg rl u ty now now_cd)
               \<longrightarrow> \<not> has_key (cooldown_users (snd (is_rate_limited cfg rl u ty now now_cd))) u))
   \<and> (map_of (cooldown_users (rl_step cfg rl op)) u \<noteq> map_of (cooldown_users rl) u
      \<longrightarrow> (\<exists>ty' now' now_cd'. op = IsRateLimited u ty' now' now_cd' \<and>
              \<not> (has_key (cooldown_users rl) u \<and> dd_get (cooldown_users rl) u 0 > now'))
          \<or> op = ResetUserLimits u)
   \<and> \<not> has_key (cooldown_users (reset_user_limits rl u)) u
   \<and> map_of (user_requests (reset_user_limits rl u)) u = Some []
   \<and> map_of (api_requests (reset_user_limits rl u)) u = Some []
   \<and> map_of (warning_counts (reset_user_limits rl u)) u = Some 0"
  using is_rate_limited_active [of rl u now cfg ty now_cd]
    is_rate_limited_expired [of rl u now cfg ty now_cd]
    is_rate_limited_expired_clear [of rl u now cfg ty now_cd]
    rl_step_cooldown_frame [of cfg rl op u]
    reset_user_limits_clears [of rl u]
  by blast

lemma cooling_eval:
  "is_rate_limited (default_config 1 []) cooling_state 7 ''message'' 1000 1001
     = (False, cooling_state\<lparr> cooldown_users := [] \<rparr>)"
  by (simp add: cooling_state_def dd_get_def is_rate_limited_def has_key_def
      clean_old_requests_def check_message_rate_limit_def default_config_def
      dd_touch_def hours_def minutes_def Let_def)

text \<open>
  The theorem at a limiter where user 7 has a cooldown until 1000: a check at 999, a check
  at 1000 and the reset.
\<close>

theorem cooldown_lifecycle_witness:
  "is_rate_limited (default_config 1 []) cooling_state 7 ''message'' 999 1001 = (True, cooling_state)
   \<and> \<not> has_key (cooldown_users (snd (is_rate_limited (default_config 1 []) cooling_state 7 ''message'' 1000 1001))) 7
   \<and> map_of (cooldown_users (rl_step (default_config 1 []) cooling_state (ResetUserLimits 7))) 7
       \<noteq> map_of (cooldown_users cooling_state) 7"
proof -
  have k: "has_key (cooldown_users cooling_state) 7"
    by (simp add: cooling_state_def has_key_def)
  have v: "dd_get (cooldown_users cooling_state) 7 0 = 1000"
    by (simp add: cooling_state_def dd_get_def)
  have f: "\<not> fst (is_rate_limited (default_config 1 []) cooling_state 7 ''message'' 1000 1001)"
    by (simp add: cooling_eval)
  note a = cooldown_lifecycle [where rl = cooling_state and u = 7 and now = 999 and cfg = "default_config 1 []"
      and ty = "''message''" and now_cd = 1001 and op = "ResetUserLimits 7"]
  note b = cooldown_lifecycle [where rl = cooling_state and u = 7 and now = 1000 and cfg = "default_config 1 []"
      and ty = "''message''" and now_cd = 1001 and op = "ResetUserLimits 7"]
  from a k v have a1: "is_rate_limited (default_config 1 []) cooling_state 7 ''message'' 999 1001 = (True, cooling_state)"
    by simp
  have nv: "\<not> dd_get (cooldown_users cooling_state) 7 0 > 1000"
    by (simp add: v)
  from b k nv f have b1: "\<not> has_key (cooldown_users (snd (is_rate_limited (default_config 1 []) cooling_state 7 ''message'' 1000 1001))) 7"
    by blast
  from a have "\<not> has_key (cooldown_users (reset_user_limits cooling_state 7)) 7"
    by blast
  with k have c1: "map_of (cooldown_users (rl_step (default_config 1 []) cooling_state (ResetUserLimits 7))) 7
       \<noteq> map_of (cooldown_users cooling_state) 7"
    by (auto simp: has_key_def)
  from a1 b1 c1 show ?thesis by blast
qed

section \<open>Properties of the text primitives\<close>

text \<open>\<open>contains p s\<close> holds exactly when \<open>p\<close> occurs in \<open>s\<close> as a contiguous piece.\<close>

lemma starts_with_iff: "starts_with p s = (\<exists>ys. s = p @ ys)"
  by (induction p s rule: starts_with.induct) auto

lemma contains_iff: "contains p s = (\<exists>xs ys. s = xs @ p @ ys)"
proof (induction s)
  case Nil
  then show ?case by auto
next
  case (Cons c cs)
  show ?case
  proof
    assume "contains p (c # cs)"
    then consider "starts_with p (c # cs)" | "contains p cs" by auto
    then show "\<exists>xs ys. c # cs = xs @ p @ ys"
    proof cases
      case 1
      then obtain ys where "c # cs = p @ ys" by (auto simp: starts_with_iff)
      then have "c # cs = [] @ p @ ys" by simp
      then show ?thesis by blast
    next
      case 2
      then obtain xs ys where "cs = xs @ p @ ys" using Cons.IH by blast
      then have "c # cs = (c # xs) @ p @ ys" by simp
      then show ?thesis by blast
    qed
  next
    assume "\<exists>xs ys. c # cs = xs @ p @ ys"
    then obtain xs ys where eq: "c # cs = xs @ p @ ys" by blast
    show "contains p (c # cs)"
    proof (cases xs)
      case Nil
      with eq have "starts_with p (c # cs)" by (auto simp: starts_with_iff)
      then show ?thesis by simp
    next
      case (Cons x xs')
      with eq have "cs = xs' @ p @ ys" by simp
      then have "contains p cs" using Cons.IH by blast
      then show ?thesis by simp
    qed
  qed
qed

text \<open>
  The classes and the case mapping outside ASCII: capital letters of Latin-1 are upper case
  and are lowered, the no-break space separates words, the superscript two is a digit, and
  the multiplication sign belongs to no class.
\<close>

lemma latin1_classes:
  "is_upper (CHR 0xC9) \<and> lower_char (CHR 0xC9) = CHR 0xE9 \<and> is_alnum (CHR 0xE9)
   \<and> is_space (CHR 0xA0) \<and> is_space (CHR 0x85) \<and> is_digit (CHR 0xB2)
   \<and> \<not> is_upper (CHR 0xD7) \<and> \<not> is_alnum (CHR 0xD7) \<and> \<not> is_digit (CHR 0xBC)
   \<and> is_alnum (CHR 0xBC) \<and> lower_char (CHR 0xDF) = CHR 0xDF"
  by code_simp

lemma nbsp_split: "split (lower nbsp_spam) = [''spam'', ''x'']"
  by code_simp

lemma latin1_caps_flag: "check_excessive_caps (default_config 1 []) latin1_capitals"
  by code_simp

section \<open>Properties of the spam scorer\<close>


lemma dd_get_init:
  "dd_get (if \<not> has_key d k then AList.update k [] d else d) k [] = dd_get d k []"
proof (cases "has_key d k")
  case True
  then show ?thesis by simp
next
  case False
  then have "dd_get d k [] = []" by (simp add: has_key_def dd_get_def)
  with False show ?thesis by (simp add: dd_get_update_same)
qed

lemma dd_get_init_other:
  "k' \<noteq> k \<Longrightarrow> dd_get (if \<not> has_key d k then AList.update k [] d else d) k' [] = dd_get d k' []"
  by (auto simp: dd_get_update_other)

lemma dup_bucket:
  "bucket (snd (check_duplicate_message cfg md5 a uid msg now)) (md5 msg)
     = filter (\<lambda>(u, t). t > now - hours 1) (bucket a (md5 msg)) @ [(uid, now)]"
  by (simp add: check_duplicate_message_def bucket_def Let_def dd_get_update_same dd_get_init)

lemma dup_bucket_other:
  "h \<noteq> md5 msg \<Longrightarrow> bucket (snd (check_duplicate_message cfg md5 a uid msg now)) h = bucket a h"
  by (simp add: check_duplicate_message_def bucket_def Let_def dd_get_update_other dd_get_init_other)

lemma dup_intervals:
  "user_message_intervals (snd (check_duplicate_message cfg md5 a uid msg now)) = user_message_intervals a"
  by (simp add: check_duplicate_message_def Let_def)

lemma dup_penalty:
  "fst (check_duplicate_message cfg md5 a uid msg now)
     = duplicate_penalty cfg (prior_count a (md5 msg) uid now)"
  by (simp add: check_duplicate_message_def bucket_def Let_def prior_count_def duplicate_penalty_def
      dd_get_init)

lemma dup_pruned:
  assumes "(u, t) \<in> set (bucket (snd (check_duplicate_message cfg md5 a uid msg now)) (md5 msg))"
  shows "t > now - hours 1 \<or> (u, t) = (uid, now)"
  using assms by (auto simp: dup_bucket)

lemma dup_run_penalties:
  assumes "\<forall>(u, x) \<in> set (bucket a (md5 msg)). u = uid \<longrightarrow> T - hours 1 < x"
    and "\<forall>t \<in> set ts. T - hours 1 < t \<and> t \<le> T"
  shows "fst (dup_run cfg md5 a uid msg ts)
     = map (\<lambda>i. duplicate_penalty cfg (length (filter (\<lambda>(u, x). u = uid) (bucket a (md5 msg))) + i))
           [0 ..< length ts]"
  using assms
proof (induction ts arbitrary: a)
  case Nil
  then show ?case by simp
next
  case (Cons t ts)
  let ?a1 = "snd (check_duplicate_message cfg md5 a uid msg t)"
  let ?own = "\<lambda>b. filter (\<lambda>(u, x). u = uid) b"
  from Cons.prems have t: "T - hours 1 < t" "t \<le> T" by auto
  have keep: "?own (filter (\<lambda>(u, x). x > t - hours 1) (bucket a (md5 msg))) = ?own (bucket a (md5 msg))"
    unfolding filter_filter
    by (rule filter_cong) (use Cons.prems(1) t in auto)
  have cnt: "prior_count a (md5 msg) uid t = length (?own (bucket a (md5 msg)))"
    by (simp only: prior_count_def keep)
  have own1: "length (?own (bucket ?a1 (md5 msg))) = Suc (length (?own (bucket a (md5 msg))))"
    by (simp only: dup_bucket filter_append keep) simp
  have fresh1: "\<forall>(u, x) \<in> set (bucket ?a1 (md5 msg)). u = uid \<longrightarrow> T - hours 1 < x"
    using Cons.prems(1) t by (auto simp: dup_bucket)
  have rest: "\<forall>t \<in> set ts. T - hours 1 < t \<and> t \<le> T"
    using Cons.prems(2) by simp
  have ih: "fst (dup_run cfg md5 ?a1 uid msg ts)
     = map (\<lambda>i. duplicate_penalty cfg (Suc (length (?own (bucket a (md5 msg)))) + i)) [0 ..< length ts]"
    using Cons.IH [OF fresh1 rest] by (simp add: own1)
  have "fst (dup_run cfg md5 a uid msg (t # ts))
      = fst (check_duplicate_message cfg md5 a uid msg t) # fst (dup_run cfg md5 ?a1 uid msg ts)"
    by (simp add: case_prod_unfold Let_def)
  also have "\<dots> = duplicate_penalty cfg (length (?own (bucket a (md5 msg))))
      # map (\<lambda>i. duplicate_penalty cfg (Suc (length (?own (bucket a (md5 msg)))) + i)) [0 ..< length ts]"
    by (simp add: dup_penalty cnt ih)
  also have "\<dots> = map (\<lambda>i. duplicate_penalty cfg (length (?own (bucket a (md5 msg))) + i)) [0 ..< length (t # ts)]"
    using map_upt_Suc [of "\<lambda>i. duplicate_penalty cfg (length (?own (bucket a (md5 msg))) + i)" "length ts"]
    by simp
  finally show ?case .
qed

text \<open>
  Claim C2. One call of the duplicate check leaves under the fingerprint of the text the
  entries that were younger than one hour at the clock reading, followed by the new entry
  (user, now): no older entry survives, and the new entry is appended after the count. The
  penalty is \<open>count - limit + 1\<close> when the number of the user's entries among the kept ones
  is at least the limit, and 0 otherwise. With a limit of 3, five sends of one text by a
  user with no earlier entry, all within one hour, yield the penalties 0, 0, 0, 1, 2.
\<close>

theorem duplicate_message_penalty:
  "bucket (snd (check_duplicate_message cfg md5 a uid msg now)) (md5 msg)
      = filter (\<lambda>(u, t). t > now - hours 1) (bucket a (md5 msg)) @ [(uid, now)]
   \<and> (\<forall>(u, t) \<in> set (bucket (snd (check_duplicate_message cfg md5 a uid msg now)) (md5 msg)).
         now - hours 1 < t \<or> (u, t) = (uid, now))
   \<and> fst (check_duplicate_message cfg md5 a uid msg now)
      = (if int (prior_count a (md5 msg) uid now) \<ge> MAX_IDENTICAL_MESSAGES cfg
         then int (prior_count a (md5 msg) uid now) - MAX_IDENTICAL_MESSAGES cfg + 1
         else 0)
   \<and> (MAX_IDENTICAL_MESSAGES cfg = 3
        \<and> (\<forall>(u, x) \<in> set (bucket a (md5 msg)). u \<noteq> uid)
        \<and> (\<forall>t \<in> set [t1, t2, t3, t4, t5]. T - hours 1 < t \<and> t \<le> T)
      \<longrightarrow> fst (dup_run cfg md5 a uid msg [t1, t2, t3, t4, t5]) = [0, 0, 0, 1, 2])"
proof -
  have p1: "bucket (snd (check_duplicate_message cfg md5 a uid msg now)) (md5 msg)
      = filter (\<lambda>(u, t). t > now - hours 1) (bucket a (md5 msg)) @ [(uid, now)]"
    by (rule dup_bucket)
  have p2: "\<forall>(u, t) \<in> set (bucket (snd (check_duplicate_message cfg md5 a uid msg now)) (md5 msg)).
         now - hours 1 < t \<or> (u, t) = (uid, now)"
    using dup_pruned [of _ _ cfg md5 a uid msg now] by blast
  have p3: "fst (check_duplicate_message cfg md5 a uid msg now)
      = (if int (prior_count a (md5 msg) uid now) \<ge> MAX_IDENTICAL_MESSAGES cfg
         then int (prior_count a (md5 msg) uid now) - MAX_IDENTICAL_MESSAGES cfg + 1
         else 0)"
    by (simp add: dup_penalty duplicate_penalty_def)
  have p4: "fst (dup_run cfg md5 a uid msg [t1, t2, t3, t4, t5]) = [0, 0, 0, 1, 2]"
    if lim: "MAX_IDENTICAL_MESSAGES cfg = 3"
      and none: "\<forall>(u, x) \<in> set (bucket a (md5 msg)). u \<noteq> uid"
      and win: "\<forall>t \<in> set [t1, t2, t3, t4, t5]. T - hours 1 < t \<and> t \<le> T"
  proof -
    from none have fresh: "\<forall>(u, x) \<in> set (bucket a (md5 msg)). u = uid \<longrightarrow> T - hours 1 < x"
      by auto
    from none have zero: "filter (\<lambda>(u, x). u = uid) (bucket a (md5 msg)) = []"
      by (auto simp: filter_empty_conv)
    have five: "[0 ..< length [t1, t2, t3, t4, t5]] = [0, 1, 2, 3, 4]"
      by (simp add: upt_rec)
    have "fst (dup_run cfg md5 a uid msg [t1, t2, t3, t4, t5])
       = map (\<lambda>i. duplicate_penalty cfg (length (filter (\<lambda>(u, x). u = uid) (bucket a (md5 msg))) + i))
           [0 ..< length [t1, t2, t3, t4, t5]]"
      using fresh win by (rule dup_run_penalties [where T = T])
    then show ?thesis
      unfolding zero five by (simp add: duplicate_penalty_def lim)
  qed
  from p1 p2 p3 p4 show ?thesis by blast
qed

lemma dup_run_eval:
  "fst (dup_run (default_config 1 []) (\<lambda>s. s) stale_state 7 ''hi'' [hours 2 + 1]) = [0]"
  by (simp add: stale_state_def check_duplicate_message_def has_key_def dd_get_def default_config_def
      hours_def Let_def)

text \<open>
  The theorem at five sends from an empty index, and at a state that holds one entry of the
  user older than an hour, one younger, and one of another user.
\<close>

theorem duplicate_message_penalty_witness:
  "fst (dup_run (default_config 1 []) (\<lambda>s. s) anti_spam_init 7 ''hi'' [1, 2, 3, 4, 5]) = [0, 0, 0, 1, 2]
   \<and> bucket (snd (check_duplicate_message (default_config 1 []) (\<lambda>s. s) stale_state 7 ''hi'' (hours 2 + 1))) ''hi''
       = [(7, hours 2), (8, hours 2), (7, hours 2 + 1)]
   \<and> fst (check_duplicate_message (default_config 1 []) (\<lambda>s. s) stale_state 7 ''hi'' (hours 2 + 1)) = 0"
proof -
  note a = duplicate_message_penalty [where cfg = "default_config 1 []" and ?md5.0 = "\<lambda>s. s" and a = anti_spam_init
      and uid = 7 and msg = "''hi''" and ?t1.0 = 1 and ?t2.0 = 2 and ?t3.0 = 3 and ?t4.0 = 4 and ?t5.0 = 5
      and T = 5]
  note b = duplicate_message_penalty [where cfg = "default_config 1 []" and ?md5.0 = "\<lambda>s. s" and a = stale_state
      and uid = 7 and msg = "''hi''" and now = "hours 2 + 1"]
  have h1: "MAX_IDENTICAL_MESSAGES (default_config 1 []) = 3"
    by (simp add: default_config_def)
  have h2: "\<forall>(u, x) \<in> set (bucket anti_spam_init ''hi''). u \<noteq> 7"
    by (simp add: bucket_def anti_spam_init_def dd_get_def)
  have h3: "\<forall>t \<in> set [1, 2, 3, 4, 5 :: int]. 5 - hours 1 < t \<and> t \<le> 5"
    by (simp add: hours_def)
  from a h1 h2 h3 have a1: "fst (dup_run (default_config 1 []) (\<lambda>s. s) anti_spam_init 7 ''hi'' [1, 2, 3, 4, 5]) = [0, 0, 0, 1, 2]"
    by blast
  have bk: "bucket stale_state ''hi'' = [(7, 0), (7, hours 2), (8, hours 2)]"
    by (simp add: bucket_def stale_state_def dd_get_def)
  from b have b1: "bucket (snd (check_duplicate_message (default_config 1 []) (\<lambda>s. s) stale_state 7 ''hi'' (hours 2 + 1))) ''hi''
       = [(7, hours 2), (8, hours 2), (7, hours 2 + 1)]"
    by (simp add: bk hours_def)
  have pc: "prior_count stale_state ''hi'' 7 (hours 2 + 1) = 1"
    by (simp add: prior_count_def bk hours_def)
  from b have b2: "fst (check_duplicate_message (default_config 1 []) (\<lambda>s. s) stale_state 7 ''hi'' (hours 2 + 1)) = 0"
    by (simp add: pc h1)
  from a1 b1 b2 show ?thesis by blast
qed

text \<open>
  Claim C10. For an update with no message, with a message that has no text, or with an
  empty text, \<open>check_spam\<close> returns \<open>(False, '''', 0)\<close> and leaves the scorer (duplicate
  index and cadence index) and the registry (user records and violation log) as they were.
\<close>

theorem check_spam_no_text:
  assumes "upd_message upd = None
           \<or> (\<exists>m. upd_message upd = Some m \<and> (msg_text m = None \<or> msg_text m = Some []))"
  shows "check_spam cfg md5 a bd upd clk = ((False, [], 0), a, bd)"
  using assms by (auto simp: check_spam_def)

text \<open>The theorem at an update with no message and at one whose text is empty.\<close>

theorem check_spam_no_text_witness:
  "check_spam (default_config 1 []) (\<lambda>s. s) stale_state (BotData (default_config 1 []) ''123456'' 0)
      empty_update clock0
     = ((False, [], 0), stale_state, BotData (default_config 1 []) ''123456'' 0)
   \<and> check_spam (default_config 1 []) (\<lambda>s. s) stale_state (BotData (default_config 1 []) ''123456'' 0)
      (text_update 7 []) clock0
     = ((False, [], 0), stale_state, BotData (default_config 1 []) ''123456'' 0)"
proof -
  have e: "upd_message empty_update = None"
    by (simp add: empty_update_def)
  have t: "\<exists>m. upd_message (text_update 7 []) = Some m \<and> (msg_text m = None \<or> msg_text m = Some [])"
    by (simp add: text_update_def)
  show ?thesis
    using check_spam_no_text [of empty_update, OF disjI1, OF e]
      check_spam_no_text [of "text_update 7 []", OF disjI2, OF t]
    by simp
qed

lemma length_pattern_tags: "length (pattern_tags ps i t) = length (filter (\<lambda>p. p t) ps)"
  by (induction ps arbitrary: i) simp_all

lemma pattern_tags_empty: "(pattern_tags ps i t = []) = (filter (\<lambda>p. p t) ps = [])"
  using length_pattern_tags [of ps i t] by (metis length_0_conv)

lemma contains_profanity_iff:
  "contains_profanity cfg t =
     (ENABLE_PROFANITY_FILTER cfg \<and> (\<exists>w \<in> set (split (lower t)). w \<in> lower ` set (PROFANITY_WORDS cfg)))"
  by (auto simp: contains_profanity_def list_ex_iff)

lemma check_excessive_caps_iff:
  "check_excessive_caps cfg t =
     (ENABLE_CAPS_FILTER cfg \<and> length t \<ge> 10 \<and>
      (of_nat (length (filter is_upper t)) :: rat) / of_nat (length t) > MAX_CAPS_PERCENTAGE cfg)"
  by (auto simp: check_excessive_caps_def Let_def)

lemma check_suspicious_links_iff:
  "check_suspicious_links cfg t =
     (ENABLE_LINK_FILTER cfg \<and> (\<exists>p \<in> set short_link_prefixes. contains p (lower t)))"
  by (auto simp: check_suspicious_links_def list_ex_iff)

lemma check_rapid_messaging_fst:
  "fst (check_rapid_messaging a uid now) = (recent_sent a uid now \<ge> 5)"
  by (simp add: check_rapid_messaging_def recent_sent_def Let_def)

lemma check_rapid_messaging_after_dup:
  "fst (check_rapid_messaging (snd (check_duplicate_message cfg md5 a uid msg t)) uid now)
     = (recent_sent a uid now \<ge> 5)"
  by (simp add: check_rapid_messaging_def recent_sent_def Let_def dup_intervals)

lemma check_account_age_eq:
  "check_account_age cfg user = (if ENABLE_USER_VERIFICATION cfg \<and> tg_id user > 5000000000 then 1 else 0)"
  by (simp add: check_account_age_def)

lemma duplicate_penalty_nonneg: "duplicate_penalty cfg n \<ge> 0"
  by (simp add: duplicate_penalty_def)

lemma fst_add_signal: "fst (add_signal b w tags acc) = fst acc + (if b then w else 0)"
  by (simp add: add_signal_def)

lemma check_spam_score:
  assumes "upd_message upd = Some m" and "msg_text m = Some t" and "t \<noteq> []"
  shows "snd (snd (fst (check_spam cfg md5 a bd upd clk)))
     = gated_score cfg md5 a (tg_id (effective_user upd)) t (t_duplicate clk) (t_rapid clk)"
proof -
  have age: "check_account_age cfg (effective_user upd)
      = (if ENABLE_USER_VERIFICATION cfg \<and> tg_id (effective_user upd) > 5000000000 then 1 else 0)"
    by (rule check_account_age_eq)
  show ?thesis
    unfolding check_spam_def assms(1) option.case assms(2) if_not_P [OF assms(3)] Let_def
      gated_score_def signal_sum_def
    apply (simp only: fst_conv snd_conv dup_penalty check_rapid_messaging_after_dup)
    apply (simp only: fst_add_signal fst_conv contains_profanity_iff check_excessive_caps_iff
        check_suspicious_links_iff age)
    using duplicate_penalty_nonneg [of cfg "prior_count a (md5 t) (tg_id (effective_user upd)) (t_duplicate clk)"]
    apply (simp add: check_spam_patterns_def length_pattern_tags pattern_tags_empty)
    done
qed

lemma check_spam_verdict:
  assumes "upd_message upd = Some m" and "msg_text m = Some t" and "t \<noteq> []"
  shows "fst (fst (check_spam cfg md5 a bd upd clk))
     = (snd (snd (fst (check_spam cfg md5 a bd upd clk))) \<ge> SPAM_SCORE_THRESHOLD cfg)"
  unfolding check_spam_def assms(1) option.case assms(2) if_not_P [OF assms(3)] Let_def
  by (simp only: fst_conv snd_conv)

text \<open>
  Claim C1, as the code has it. For an update whose message carries a non-empty text, the
  score returned by \<open>check_spam\<close> is the sum of the weights of the triggered signals, where
  the profanity, caps, link and new-account signals count only while
  \<open>ENABLE_PROFANITY_FILTER\<close>, \<open>ENABLE_CAPS_FILTER\<close>, \<open>ENABLE_LINK_FILTER\<close> and
  \<open>ENABLE_USER_VERIFICATION\<close> are set, and the verdict is true exactly when the score
  reaches \<open>SPAM_SCORE_THRESHOLD\<close>. With the four switches set, as in the default
  configuration, this is the sum as the claim words it. The texts are those of the model,
  every sequence of code points below 256, with the character classes of Python.
\<close>

theorem check_spam_score_sum:
  assumes "upd_message upd = Some m" and "msg_text m = Some t" and "t \<noteq> []"
  shows "snd (snd (fst (check_spam cfg md5 a bd upd clk)))
           = gated_score cfg md5 a (tg_id (effective_user upd)) t (t_duplicate clk) (t_rapid clk)
         \<and> fst (fst (check_spam cfg md5 a bd upd clk))
           = (snd (snd (fst (check_spam cfg md5 a bd upd clk))) \<ge> SPAM_SCORE_THRESHOLD cfg)
         \<and> (ENABLE_PROFANITY_FILTER cfg \<and> ENABLE_CAPS_FILTER cfg \<and> ENABLE_LINK_FILTER cfg
              \<and> ENABLE_USER_VERIFICATION cfg
            \<longrightarrow> snd (snd (fst (check_spam cfg md5 a bd upd clk)))
                = claimed_score cfg md5 a (tg_id (effective_user upd)) t (t_duplicate clk) (t_rapid clk))"
proof -
  have "gated_score cfg md5 a (tg_id (effective_user upd)) t (t_duplicate clk) (t_rapid clk)
      = claimed_score cfg md5 a (tg_id (effective_user upd)) t (t_duplicate clk) (t_rapid clk)"
    if "ENABLE_PROFANITY_FILTER cfg" "ENABLE_CAPS_FILTER cfg" "ENABLE_LINK_FILTER cfg"
      "ENABLE_USER_VERIFICATION cfg"
    using that by (simp add: gated_score_def claimed_score_def)
  then show ?thesis
    using check_spam_score [OF assms, of cfg md5 a bd clk] check_spam_verdict [OF assms, of cfg md5 a bd clk]
    by simp
qed

text \<open>
  Claim C1 counts the profanity signal whenever a token of the text is in the profanity
  set. With \<open>ENABLE_PROFANITY_FILTER\<close> off, the text \<open>spam\<close> scores 0, while the sum of the
  claim is 1.
\<close>

theorem profanity_gate_counterexample:
  "snd (snd (fst (check_spam no_profanity_config (\<lambda>s. s) anti_spam_init
                    (BotData no_profanity_config ''123456'' 0) (text_update 7 ''spam'') clock0))) = 0
   \<and> claimed_score no_profanity_config (\<lambda>s. s) anti_spam_init 7 ''spam''
         (t_duplicate clock0) (t_rapid clock0) = 1"
  by code_simp

text \<open>
  The theorem at the default configuration: an upper-case text with a profanity word and a
  short link (profanity 1, caps 1 and link 3 reach the threshold of 5), a text of capital
  letters of Latin-1 (caps 1), and the word \<open>spam\<close> followed by a no-break space
  (profanity 1).
\<close>

theorem check_spam_score_sum_witness:
  "snd (snd (fst (check_spam (default_config 1 []) (\<lambda>s. s) anti_spam_init
                    (BotData (default_config 1 []) ''123456'' 0)
                    (text_update 7 ''SPAM HTTP://BIT.LY/X NOW'') clock0))) = 5
   \<and> fst (fst (check_spam (default_config 1 []) (\<lambda>s. s) anti_spam_init
                    (BotData (default_config 1 []) ''123456'' 0)
                    (text_update 7 ''SPAM HTTP://BIT.LY/X NOW'') clock0))
   \<and> claimed_score (default_config 1 []) (\<lambda>s. s) anti_spam_init 7 ''SPAM HTTP://BIT.LY/X NOW''
         (t_duplicate clock0) (t_rapid clock0) = 5
   \<and> snd (snd (fst (check_spam (default_config 1 []) (\<lambda>s. s) anti_spam_init
                    (BotData (default_config 1 []) ''123456'' 0)
                    (text_update 7 latin1_capitals) clock0))) = 1
   \<and> snd (snd (fst (check_spam (default_config 1 []) (\<lambda>s. s) anti_spam_init
                    (BotData (default_config 1 []) ''123456'' 0)
                    (text_update 7 nbsp_spam) clock0))) = 1"
proof -
  let ?run = "\<lambda>t. check_spam (default_config 1 []) (\<lambda>s. s) anti_spam_init
                    (BotData (default_config 1 []) ''123456'' 0) (text_update 7 t) clock0"
  have sw: "ENABLE_PROFANITY_FILTER (default_config 1 []) \<and> ENABLE_CAPS_FILTER (default_config 1 [])
      \<and> ENABLE_LINK_FILTER (default_config 1 []) \<and> ENABLE_USER_VERIFICATION (default_config 1 [])"
    by (simp add: default_config_def)
  have th: "SPAM_SCORE_THRESHOLD (default_config 1 []) = 5"
    by (simp add: default_config_def)
  have at: "snd (snd (fst (?run t)))
        = gated_score (default_config 1 []) (\<lambda>s. s) anti_spam_init 7 t (t_duplicate clock0) (t_rapid clock0)
      \<and> fst (fst (?run t)) = (snd (snd (fst (?run t))) \<ge> SPAM_SCORE_THRESHOLD (default_config 1 []))
      \<and> snd (snd (fst (?run t)))
        = claimed_score (default_config 1 []) (\<lambda>s. s) anti_spam_init 7 t (t_duplicate clock0) (t_rapid clock0)"
    if "t \<noteq> []" for t
  proof -
    have m: "upd_message (text_update 7 t) = Some \<lparr> msg_text = Some t \<rparr>"
      by (simp add: text_update_def)
    have x: "msg_text \<lparr> msg_text = Some t \<rparr> = Some t"
      by simp
    have u: "tg_id (effective_user (text_update 7 t)) = 7"
      by (simp add: text_update_def)
    note w = check_spam_score_sum [OF m x that, where cfg = "default_config 1 []" and ?md5.0 = "\<lambda>s. s"
        and a = anti_spam_init and bd = "BotData (default_config 1 []) ''123456'' 0" and clk = clock0]
    from w sw show ?thesis
      unfolding u by blast
  qed
  have g1: "gated_score (default_config 1 []) (\<lambda>s. s) anti_spam_init 7 ''SPAM HTTP://BIT.LY/X NOW''
             (t_duplicate clock0) (t_rapid clock0) = 5"
    by code_simp
  have g2: "gated_score (default_config 1 []) (\<lambda>s. s) anti_spam_init 7 latin1_capitals
             (t_duplicate clock0) (t_rapid clock0) = 1"
    by code_simp
  have g3: "gated_score (default_config 1 []) (\<lambda>s. s) anti_spam_init 7 nbsp_spam
             (t_duplicate clock0) (t_rapid clock0) = 1"
    by code_simp
  have n1: "''SPAM HTTP://BIT.LY/X NOW'' \<noteq> []"
    by simp
  have n2: "latin1_capitals \<noteq> []"
    by (simp add: latin1_capitals_def)
  have n3: "nbsp_spam \<noteq> []"
    by (simp add: nbsp_spam_def)
  have s1: "snd (snd (fst (?run ''SPAM HTTP://BIT.LY/X NOW''))) = 5"
    using at [OF n1] g1 by simp
  have v1: "fst (fst (?run ''SPAM HTTP://BIT.LY/X NOW''))"
    using at [OF n1] s1 th by simp
  have c1: "claimed_score (default_config 1 []) (\<lambda>s. s) anti_spam_init 7 ''SPAM HTTP://BIT.LY/X NOW''
         (t_duplicate clock0) (t_rapid clock0) = 5"
    using at [OF n1] s1 by simp
  have s2: "snd (snd (fst (?run latin1_capitals))) = 1"
    using at [OF n2] g2 by simp
  have s3: "snd (snd (fst (?run nbsp_spam))) = 1"
    using at [OF n3] g3 by simp
  from s1 v1 c1 s2 s3 show ?thesis by blast
qed

section \<open>Properties of the moderation engine\<close>

lemma has_key_update: "has_key (AList.update k v d) k' = (k' = k \<or> has_key d k')"
  by (simp add: has_key_def update_conv')

lemma has_key_delete: "has_key (AList.delete k d) k' = (k' \<noteq> k \<and> has_key d k')"
  by (simp add: has_key_def delete_conv')

lemma mute_user_counts:
  "mod_warning_counts (fst (mute_user ok md chat user mins reason t1 t2)) = mod_warning_counts md"
  by (simp add: mute_user_def Let_def)

lemma mute_user_calls:
  "\<exists>rest. snd (mute_user ok md chat user mins reason t1 t2)
     = RestrictMember chat user False (Some (t1 + minutes mins)) # rest
     \<and> (\<forall>call \<in> set rest. \<not> is_ban call \<and> \<not> is_restrict call)"
  by (simp add: mute_user_def Let_def is_ban_def is_restrict_def)

lemma mute_user_snd:
  "snd (mute_user ok md chat user mins reason t1 t2)
     = RestrictMember chat user False (Some (t1 + minutes mins))
       # (if ok (RestrictMember chat user False (Some (t1 + minutes mins)))
          then [SendMessage chat (MuteNotice user mins reason)] else [])"
  by (simp add: mute_user_def Let_def)

lemma mute_user_record:
  "ok (RestrictMember chat user False (Some (t1 + minutes mins))) \<Longrightarrow>
   map_of (muted_users (fst (mute_user ok md chat user mins reason t1 t2))) (chat, user)
     = Some (t2 + minutes mins)"
  by (simp add: mute_user_def Let_def update_conv')

lemma mute_user_refused:
  "\<not> ok (RestrictMember chat user False (Some (t1 + minutes mins))) \<Longrightarrow>
   fst (mute_user ok md chat user mins reason t1 t2) = md"
  by (simp add: mute_user_def Let_def)

lemma ban_user_state: "fst (ban_user ok md chat user reason) = md"
  by (simp add: ban_user_def Let_def)

lemma ban_user_calls:
  "\<exists>rest. snd (ban_user ok md chat user reason) = BanMember chat user # rest
     \<and> (\<forall>call \<in> set rest. \<not> is_restrict call)"
  by (simp add: ban_user_def Let_def is_restrict_def)

lemma warn_user_counts:
  "mod_warning_counts (fst (warn_user ok md chat user reason t1 t2))
     = AList.update (chat, user) (dd_get (mod_warning_counts md) (chat, user) 0 + 1) (mod_warning_counts md)"
  by (simp add: warn_user_def Let_def case_prod_unfold mute_user_counts)

lemma warn_user_count:
  "dd_get (mod_warning_counts (fst (warn_user ok md chat user reason t1 t2))) (chat, user) 0
     = dd_get (mod_warning_counts md) (chat, user) 0 + 1"
  by (simp add: warn_user_counts dd_get_update_same)

lemma warn_user_calls:
  "\<exists>rest. snd (warn_user ok md chat user reason t1 t2)
     = SendMessage chat (WarningNotice (dd_get (mod_warning_counts md) (chat, user) 0 + 1) user reason) # rest
     \<and> (\<forall>call \<in> set rest. \<not> is_ban call)"
  by (auto simp: warn_user_def Let_def case_prod_unfold dd_get_update_same is_ban_def mute_user_snd)

lemma warn_user_escalates:
  assumes "ok (SendMessage chat (WarningNotice (dd_get (mod_warning_counts md) (chat, user) 0 + 1) user reason))"
    and "dd_get (mod_warning_counts md) (chat, user) 0 + 1 \<ge> 3"
  shows "\<exists>rest. snd (warn_user ok md chat user reason t1 t2)
       = SendMessage chat (WarningNotice (dd_get (mod_warning_counts md) (chat, user) 0 + 1) user reason)
         # RestrictMember chat user False (Some (t1 + minutes 60)) # rest"
    and "ok (RestrictMember chat user False (Some (t1 + minutes 60))) \<Longrightarrow>
         map_of (muted_users (fst (warn_user ok md chat user reason t1 t2))) (chat, user)
           = Some (t2 + minutes 60)"
  using assms
  by (auto simp: warn_user_def Let_def case_prod_unfold dd_get_update_same mute_user_record mute_user_snd)

lemma warn_user_quiet:
  assumes "\<not> ok (SendMessage chat (WarningNotice (dd_get (mod_warning_counts md) (chat, user) 0 + 1) user reason))
           \<or> dd_get (mod_warning_counts md) (chat, user) 0 + 1 < 3"
  shows "snd (warn_user ok md chat user reason t1 t2)
       = [SendMessage chat (WarningNotice (dd_get (mod_warning_counts md) (chat, user) 0 + 1) user reason)]"
    and "muted_users (fst (warn_user ok md chat user reason t1 t2)) = muted_users md"
  using assms by (auto simp: warn_user_def Let_def case_prod_unfold dd_get_update_same)

lemma restore_all_counts:
  "mod_warning_counts (fst (restore_all ok md keys)) = mod_warning_counts md"
  by (induction keys arbitrary: md) (auto simp: Let_def case_prod_unfold)

lemma handle_counts:
  "mod_warning_counts (fst (handle_spam_violation cfg ok md upd s reason t1 t2)) = mod_warning_counts md
   \<or> mod_warning_counts (fst (handle_spam_violation cfg ok md upd s reason t1 t2))
      = mod_warning_counts (fst (warn_user ok md (chat_id (effective_chat upd)) (tg_id (effective_user upd)) reason t1 t2))"
  by (simp add: handle_spam_violation_def Let_def case_prod_unfold mute_user_counts ban_user_state)

lemma mod_step_keeps_warnings:
  assumes "has_key (mod_warning_counts md) key"
    and "\<not> has_key (mod_warning_counts (mod_step cfg ok md op)) key"
  shows "op = ClearUserWarnings (fst key) (snd key)"
proof (cases op)
  case (HandleSpamViolation upd s reason t1 t2)
  then show ?thesis
    using assms handle_counts [of cfg ok md upd s reason t1 t2]
    by (auto simp: warn_user_counts has_key_update)
next
  case (WarnUser chat user reason t1 t2)
  then show ?thesis using assms by (simp add: warn_user_counts has_key_update)
next
  case (MuteUser chat user mins reason t1 t2)
  then show ?thesis using assms by (simp add: mute_user_counts)
next
  case (BanUser chat user reason)
  then show ?thesis using assms by (simp add: ban_user_state)
next
  case (UnmuteUser chat user)
  then show ?thesis using assms by (auto simp: unmute_user_def Let_def split: if_splits)
next
  case (UnbanUser chat user)
  then show ?thesis using assms by (simp add: unban_user_def)
next
  case (ClearUserWarnings chat user)
  then show ?thesis using assms
    by (cases key) (auto simp: clear_user_warnings_def Let_def has_key_delete split: if_splits)
next
  case (IsUserMuted chat user now)
  then show ?thesis using assms
    by (simp add: is_user_muted_def Let_def split: option.splits if_splits)
next
  case (CleanupExpiredRestrictions now)
  then show ?thesis using assms
    by (simp add: cleanup_expired_restrictions_def restore_all_counts)
qed

lemma clear_user_warnings_clears:
  "\<not> has_key (mod_warning_counts (clear_user_warnings md chat user)) (chat, user)"
  by (auto simp: clear_user_warnings_def Let_def has_key_delete)

lemma mod_step_warning_frame:
  "map_of (mod_warning_counts (mod_step cfg ok md op)) key = map_of (mod_warning_counts md) key
   \<or> map_of (mod_warning_counts (mod_step cfg ok md op)) key
        = Some (dd_get (mod_warning_counts md) key 0 + 1)
   \<or> op = ClearUserWarnings (fst key) (snd key)"
proof (cases op)
  case (HandleSpamViolation upd s reason t1 t2)
  then show ?thesis
    using handle_counts [of cfg ok md upd s reason t1 t2]
    by (auto simp: warn_user_counts update_conv')
next
  case (WarnUser chat user reason t1 t2)
  then show ?thesis by (auto simp: warn_user_counts update_conv')
next
  case (MuteUser chat user mins reason t1 t2)
  then show ?thesis by (simp add: mute_user_counts)
next
  case (BanUser chat user reason)
  then show ?thesis by (simp add: ban_user_state)
next
  case (UnmuteUser chat user)
  then show ?thesis by (auto simp: unmute_user_def Let_def split: if_splits)
next
  case (UnbanUser chat user)
  then show ?thesis by (simp add: unban_user_def)
next
  case (ClearUserWarnings chat user)
  then show ?thesis
    by (cases key) (auto simp: clear_user_warnings_def Let_def delete_conv' split: if_splits)
next
  case (IsUserMuted chat user now)
  then show ?thesis
    by (simp add: is_user_muted_def Let_def split: option.splits if_splits)
next
  case (CleanupExpiredRestrictions now)
  then show ?thesis
    by (simp add: cleanup_expired_restrictions_def restore_all_counts)
qed

lemma mod_step_count_not_lowered:
  assumes "op \<noteq> ClearUserWarnings chat user"
  shows "dd_get (mod_warning_counts (mod_step cfg ok md op)) (chat, user) 0
           = dd_get (mod_warning_counts md) (chat, user) 0
         \<or> dd_get (mod_warning_counts (mod_step cfg ok md op)) (chat, user) 0
           = dd_get (mod_warning_counts md) (chat, user) 0 + 1"
  using mod_step_warning_frame [of cfg ok md op "(chat, user)"] assms
  by (auto simp: dd_get_def)

lemma handle_unfold:
  assumes "chat_type (effective_chat upd) \<noteq> ''private''"
  shows "handle_spam_violation cfg ok md upd s reason t1 t2 =
     (let act = (if s \<ge> AUTO_BAN_SPAM_SCORE cfg
                 then ban_user ok md (chat_id (effective_chat upd)) (tg_id (effective_user upd)) reason
                 else if s \<ge> SPAM_SCORE_THRESHOLD cfg + 2
                 then mute_user ok md (chat_id (effective_chat upd)) (tg_id (effective_user upd)) 30 reason t1 t2
                 else if s \<ge> SPAM_SCORE_THRESHOLD cfg
                 then warn_user ok md (chat_id (effective_chat upd)) (tg_id (effective_user upd)) reason t1 t2
                 else (md, []))
      in (fst act, snd act @ (case upd_message upd of None \<Rightarrow> [] | Some m \<Rightarrow> [DeleteMessage (chat_id (effective_chat upd))])))"
  using assms by (simp add: handle_spam_violation_def Let_def case_prod_unfold)

lemma delete_tail_no_ban:
  "\<forall>call \<in> set (case m of None \<Rightarrow> [] | Some x \<Rightarrow> [DeleteMessage c]). \<not> is_ban call \<and> \<not> is_restrict call"
  by (simp add: is_ban_def is_restrict_def split: option.splits)

lemma handle_ban:
  assumes "chat_type (effective_chat upd) \<noteq> ''private''" and "s \<ge> AUTO_BAN_SPAM_SCORE cfg"
  shows "fst (handle_spam_violation cfg ok md upd s reason t1 t2) = md"
    and "\<exists>rest. snd (handle_spam_violation cfg ok md upd s reason t1 t2)
           = BanMember (chat_id (effective_chat upd)) (tg_id (effective_user upd)) # rest
           \<and> (\<forall>call \<in> set rest. \<not> is_restrict call)"
  using assms(2) ban_user_calls [of ok md "chat_id (effective_chat upd)" "tg_id (effective_user upd)" reason]
    delete_tail_no_ban [where m = "upd_message upd" and c = "chat_id (effective_chat upd)"]
  unfolding handle_unfold [OF assms(1)] Let_def
  by (auto simp: ban_user_state)

lemma handle_mute:
  assumes "chat_type (effective_chat upd) \<noteq> ''private''"
    and "SPAM_SCORE_THRESHOLD cfg + 2 \<le> s" and "s < AUTO_BAN_SPAM_SCORE cfg"
  shows "\<exists>rest. snd (handle_spam_violation cfg ok md upd s reason t1 t2)
           = RestrictMember (chat_id (effective_chat upd)) (tg_id (effective_user upd)) False
               (Some (t1 + minutes 30)) # rest
           \<and> (\<forall>call \<in> set rest. \<not> is_ban call)"
    and "mod_warning_counts (fst (handle_spam_violation cfg ok md upd s reason t1 t2))
           = mod_warning_counts md"
    and "ok (RestrictMember (chat_id (effective_chat upd)) (tg_id (effective_user upd)) False
               (Some (t1 + minutes 30))) \<Longrightarrow>
         map_of (muted_users (fst (handle_spam_violation cfg ok md upd s reason t1 t2)))
             (chat_id (effective_chat upd), tg_id (effective_user upd)) = Some (t2 + minutes 30)"
    and "\<not> ok (RestrictMember (chat_id (effective_chat upd)) (tg_id (effective_user upd)) False
               (Some (t1 + minutes 30))) \<Longrightarrow>
         fst (handle_spam_violation cfg ok md upd s reason t1 t2) = md"
  using assms(2,3) delete_tail_no_ban [where m = "upd_message upd" and c = "chat_id (effective_chat upd)"]
  unfolding handle_unfold [OF assms(1)] Let_def
  by (auto simp: mute_user_counts mute_user_record mute_user_refused mute_user_snd is_ban_def)

lemma handle_warn:
  assumes "chat_type (effective_chat upd) \<noteq> ''private''"
    and "SPAM_SCORE_THRESHOLD cfg \<le> s" and "s < SPAM_SCORE_THRESHOLD cfg + 2"
    and "s < AUTO_BAN_SPAM_SCORE cfg"
  shows "dd_get (mod_warning_counts (fst (handle_spam_violation cfg ok md upd s reason t1 t2)))
             (chat_id (effective_chat upd), tg_id (effective_user upd)) 0
           = dd_get (mod_warning_counts md) (chat_id (effective_chat upd), tg_id (effective_user upd)) 0 + 1"
    and "\<exists>rest. snd (handle_spam_violation cfg ok md upd s reason t1 t2)
           = SendMessage (chat_id (effective_chat upd))
               (WarningNotice
                  (dd_get (mod_warning_counts md) (chat_id (effective_chat upd), tg_id (effective_user upd)) 0 + 1)
                  (tg_id (effective_user upd)) reason) # rest
           \<and> (\<forall>call \<in> set rest. \<not> is_ban call)"
proof -
  have eq: "handle_spam_violation cfg ok md upd s reason t1 t2 =
      (fst (warn_user ok md (chat_id (effective_chat upd)) (tg_id (effective_user upd)) reason t1 t2),
       snd (warn_user ok md (chat_id (effective_chat upd)) (tg_id (effective_user upd)) reason t1 t2)
         @ (case upd_message upd of None \<Rightarrow> [] | Some m \<Rightarrow> [DeleteMessage (chat_id (effective_chat upd))]))"
    using assms(2,3,4) unfolding handle_unfold [OF assms(1)] Let_def by simp
  show "dd_get (mod_warning_counts (fst (handle_spam_violation cfg ok md upd s reason t1 t2)))
             (chat_id (effective_chat upd), tg_id (effective_user upd)) 0
           = dd_get (mod_warning_counts md) (chat_id (effective_chat upd), tg_id (effective_user upd)) 0 + 1"
    unfolding eq by (simp add: warn_user_count)
  show "\<exists>rest. snd (handle_spam_violation cfg ok md upd s reason t1 t2)
           = SendMessage (chat_id (effective_chat upd))
               (WarningNotice
                  (dd_get (mod_warning_counts md) (chat_id (effective_chat upd), tg_id (effective_user upd)) 0 + 1)
                  (tg_id (effective_user upd)) reason) # rest
           \<and> (\<forall>call \<in> set rest. \<not> is_ban call)"
    using warn_user_calls [of ok md "chat_id (effective_chat upd)" "tg_id (effective_user upd)" reason t1 t2]
      delete_tail_no_ban [where m = "upd_message upd" and c = "chat_id (effective_chat upd)"]
    unfolding eq by auto
qed

text \<open>
  Claim C3, as the code has it. In a chat that is not private, with \<open>T\<close> the spam
  threshold and \<open>B\<close> the auto-ban threshold: a score \<open>s \<ge> B\<close> issues the ban request first,
  issues no restriction request and leaves the engine state as it was (no mute record, no
  warning counted), whatever \<open>T\<close> is; a score with \<open>T + 2 \<le> s < B\<close> issues a restriction
  until 30 minutes after the clock reading, no ban request, counts no warning, and records
  the mute for 30 minutes when the transport accepts the restriction; a score with
  \<open>T \<le> s < T + 2\<close> and \<open>s < B\<close> counts a warning and issues the warning notice, without a
  ban request.
\<close>

theorem moderation_action_selection:
  assumes "chat_type (effective_chat upd) \<noteq> ''private''"
  shows "(s \<ge> AUTO_BAN_SPAM_SCORE cfg \<longrightarrow>
            fst (handle_spam_violation cfg ok md upd s reason t1 t2) = md
            \<and> (\<exists>rest. snd (handle_spam_violation cfg ok md upd s reason t1 t2)
                  = BanMember (chat_id (effective_chat upd)) (tg_id (effective_user upd)) # rest
                  \<and> (\<forall>call \<in> set rest. \<not> is_restrict call)))
       \<and> (SPAM_SCORE_THRESHOLD cfg + 2 \<le> s \<and> s < AUTO_BAN_SPAM_SCORE cfg \<longrightarrow>
            (\<exists>rest. snd (handle_spam_violation cfg ok md upd s reason t1 t2)
                  = RestrictMember (chat_id (effective_chat upd)) (tg_id (effective_user upd)) False
                      (Some (t1 + minutes 30)) # rest
                  \<and> (\<forall>call \<in> set rest. \<not> is_ban call))
            \<and> mod_warning_counts (fst (handle_spam_violation cfg ok md upd s reason t1 t2))
                  = mod_warning_counts md
            \<and> (ok (RestrictMember (chat_id (effective_chat upd)) (tg_id (effective_user upd)) False
                      (Some (t1 + minutes 30))) \<longrightarrow>
                 map_of (muted_users (fst (handle_spam_violation cfg ok md upd s reason t1 t2)))
                   (chat_id (effective_chat upd), tg_id (effective_user upd)) = Some (t2 + minutes 30)))
       \<and> (SPAM_SCORE_THRESHOLD cfg \<le> s \<and> s < SPAM_SCORE_THRESHOLD cfg + 2 \<and> s < AUTO_BAN_SPAM_SCORE cfg \<longrightarrow>
            dd_get (mod_warning_counts (fst (handle_spam_violation cfg ok md upd s reason t1 t2)))
                (chat_id (effective_chat upd), tg_id (effective_user upd)) 0
              = dd_get (mod_warning_counts md) (chat_id (effective_chat upd), tg_id (effective_user upd)) 0 + 1
            \<and> (\<exists>rest. snd (handle_spam_violation cfg ok md upd s reason t1 t2)
                  = SendMessage (chat_id (effective_chat upd))
                      (WarningNotice
                         (dd_get (mod_warning_counts md)
                            (chat_id (effective_chat upd), tg_id (effective_user upd)) 0 + 1)
                         (tg_id (effective_user upd)) reason) # rest
                  \<and> (\<forall>call \<in> set rest. \<not> is_ban call)))"
  using handle_ban [OF assms, where cfg = cfg and s = s and ok = ok and md = md and reason = reason
      and ?t1.0 = t1 and ?t2.0 = t2]
    handle_mute(1,2,3) [OF assms, where cfg = cfg and s = s and ok = ok and md = md and reason = reason
      and ?t1.0 = t1 and ?t2.0 = t2]
    handle_warn [OF assms, where cfg = cfg and s = s and ok = ok and md = md and reason = reason
      and ?t1.0 = t1 and ?t2.0 = t2]
  by blast

text \<open>
  Claim C3 states that every score with \<open>T \<le> s < T + 2\<close> is warned. With \<open>T = 5\<close> and
  \<open>B = 6\<close> the score 6 lies in that range, and the engine bans: no warning is counted.
\<close>

theorem warn_range_counterexample:
  "SPAM_SCORE_THRESHOLD early_ban_config \<le> 6 \<and> 6 < SPAM_SCORE_THRESHOLD early_ban_config + 2
   \<and> handle_spam_violation early_ban_config all_ok moderation_init (text_update 7 ''x'') 6 ''r'' 10 11
       = (moderation_init,
          [BanMember 100 7, SendMessage 100 (BanNotice 7 ''r''), DeleteMessage 100])"
  by (simp add: early_ban_config_def default_config_def handle_spam_violation_def text_update_def
      ban_user_def all_ok_def Let_def)

text \<open>
  The theorem at the default thresholds 5 and 10, in a group chat: the scores 12, 8 and 5.
\<close>

theorem moderation_action_selection_witness:
  "fst (handle_spam_violation (default_config 1 []) all_ok moderation_init (text_update 7 ''x'') 12 ''r'' 10 11)
     = moderation_init
   \<and> map_of (muted_users (fst (handle_spam_violation (default_config 1 []) all_ok moderation_init
                                  (text_update 7 ''x'') 8 ''r'' 10 11))) (100, 7)
     = Some (11 + minutes 30)
   \<and> dd_get (mod_warning_counts (fst (handle_spam_violation (default_config 1 []) all_ok moderation_init
                                  (text_update 7 ''x'') 5 ''r'' 10 11))) (100, 7) 0 = 1"
proof -
  have np: "chat_type (effective_chat (text_update 7 ''x'')) \<noteq> ''private''"
    by (simp add: text_update_def)
  have c: "chat_id (effective_chat (text_update 7 ''x'')) = 100"
    and u: "tg_id (effective_user (text_update 7 ''x'')) = 7"
    by (simp_all add: text_update_def)
  have T: "SPAM_SCORE_THRESHOLD (default_config 1 []) = 5"
    and B: "AUTO_BAN_SPAM_SCORE (default_config 1 []) = 10"
    by (simp_all add: default_config_def)
  have z: "dd_get (mod_warning_counts moderation_init) (100, 7) 0 = 0"
    by (simp add: moderation_init_def dd_get_def)
  note a = moderation_action_selection [OF np, where cfg = "default_config 1 []" and ok = all_ok
      and md = moderation_init and reason = "''r''" and ?t1.0 = 10 and ?t2.0 = 11 and s = 12]
  note b = moderation_action_selection [OF np, where cfg = "default_config 1 []" and ok = all_ok
      and md = moderation_init and reason = "''r''" and ?t1.0 = 10 and ?t2.0 = 11 and s = 8]
  note d = moderation_action_selection [OF np, where cfg = "default_config 1 []" and ok = all_ok
      and md = moderation_init and reason = "''r''" and ?t1.0 = 10 and ?t2.0 = 11 and s = 5]
  from a have a1: "fst (handle_spam_violation (default_config 1 []) all_ok moderation_init (text_update 7 ''x'') 12 ''r'' 10 11)
     = moderation_init"
    by (simp add: B)
  from b have b1: "map_of (muted_users (fst (handle_spam_violation (default_config 1 []) all_ok moderation_init
                                  (text_update 7 ''x'') 8 ''r'' 10 11))) (100, 7)
     = Some (11 + minutes 30)"
    by (simp add: T B c u all_ok_def)
  from d have d1: "dd_get (mod_warning_counts (fst (handle_spam_violation (default_config 1 []) all_ok moderation_init
                                  (text_update 7 ''x'') 5 ''r'' 10 11))) (100, 7) 0 = 1"
    by (simp add: T B c u z)
  from a1 b1 d1 show ?thesis by blast
qed

lemma warn_run_three:
  assumes zero: "dd_get (mod_warning_counts md) (chat, user) 0 = 0" and ok: "\<forall>call. ok call"
  shows "dd_get (mod_warning_counts (fst (warn_run ok md chat user [(a1, b1), (a2, b2), (a3, b3)]))) (chat, user) 0 = 3"
    and "map_of (muted_users (fst (warn_run ok md chat user [(a1, b1), (a2, b2), (a3, b3)]))) (chat, user)
          = Some (b3 + minutes 60)"
    and "muted_users (fst (warn_run ok md chat user [(a1, b1), (a2, b2)])) = muted_users md"
proof -
  let ?m1 = "fst (warn_user ok md chat user ''spam'' a1 b1)"
  let ?m2 = "fst (warn_user ok ?m1 chat user ''spam'' a2 b2)"
  let ?m3 = "fst (warn_user ok ?m2 chat user ''spam'' a3 b3)"
  have c1: "dd_get (mod_warning_counts ?m1) (chat, user) 0 = 1"
    by (simp add: warn_user_count zero)
  have c2: "dd_get (mod_warning_counts ?m2) (chat, user) 0 = 2"
    by (simp add: warn_user_count zero)
  have c3: "dd_get (mod_warning_counts ?m3) (chat, user) 0 = 3"
    by (simp add: warn_user_count zero)
  have r2: "fst (warn_run ok md chat user [(a1, b1), (a2, b2)]) = ?m2"
    by (simp add: case_prod_unfold Let_def)
  have r3: "fst (warn_run ok md chat user [(a1, b1), (a2, b2), (a3, b3)]) = ?m3"
    by (simp add: case_prod_unfold Let_def)
  have q1: "muted_users ?m1 = muted_users md"
    by (rule warn_user_quiet(2)) (simp add: zero)
  have q2: "muted_users ?m2 = muted_users ?m1"
    by (rule warn_user_quiet(2)) (simp add: warn_user_count zero)
  show "dd_get (mod_warning_counts (fst (warn_run ok md chat user [(a1, b1), (a2, b2), (a3, b3)]))) (chat, user) 0 = 3"
    unfolding r3 by (rule c3)
  show "map_of (muted_users (fst (warn_run ok md chat user [(a1, b1), (a2, b2), (a3, b3)]))) (chat, user)
          = Some (b3 + minutes 60)"
    unfolding r3 by (rule warn_user_escalates(2)) (simp_all add: ok warn_user_count zero)
  show "muted_users (fst (warn_run ok md chat user [(a1, b1), (a2, b2)])) = muted_users md"
    unfolding r2 q2 q1 ..
qed

text \<open>
  The warning operation on every path. A warning adds one to the counter of the
  (chat, user) pair. When the transport accepts the warning notice and the new count is at
  least 3, the engine issues a restriction until 60 minutes after the clock reading and,
  when the transport accepts it, records the mute for 60 minutes; when the notice is
  refused or the count is below 3, nothing but the notice is issued and no mute is
  recorded. A mute leaves every warning counter as it was. Every operation of the engine
  other than \<open>clear_user_warnings\<close> for the pair leaves the count of the pair as it was or
  adds one to it, so none of them removes or lowers it, and \<open>clear_user_warnings\<close> removes
  it. Three warnings in a row from a count of 0, on a transport that accepts every request,
  leave the count at 3 and a mute of 60 minutes that the first two did not create.
\<close>

theorem warning_escalation:
  "dd_get (mod_warning_counts (fst (warn_user ok md chat user reason t1 t2))) (chat, user) 0
      = dd_get (mod_warning_counts md) (chat, user) 0 + 1
   \<and> (ok (SendMessage chat (WarningNotice (dd_get (mod_warning_counts md) (chat, user) 0 + 1) user reason))
        \<and> dd_get (mod_warning_counts md) (chat, user) 0 + 1 \<ge> 3
      \<longrightarrow> (\<exists>rest. snd (warn_user ok md chat user reason t1 t2)
              = SendMessage chat (WarningNotice (dd_get (mod_warning_counts md) (chat, user) 0 + 1) user reason)
                # RestrictMember chat user False (Some (t1 + minutes 60)) # rest)
          \<and> (ok (RestrictMember chat user False (Some (t1 + minutes 60)))
               \<longrightarrow> map_of (muted_users (fst (warn_user ok md chat user reason t1 t2))) (chat, user)
                     = Some (t2 + minutes 60)))
   \<and> (\<not> ok (SendMessage chat (WarningNotice (dd_get (mod_warning_counts md) (chat, user) 0 + 1) user reason))
        \<or> dd_get (mod_warning_counts md) (chat, user) 0 + 1 < 3
      \<longrightarrow> snd (warn_user ok md chat user reason t1 t2)
              = [SendMessage chat (WarningNotice (dd_get (mod_warning_counts md) (chat, user) 0 + 1) user reason)]
          \<and> muted_users (fst (warn_user ok md chat user reason t1 t2)) = muted_users md)
   \<and> mod_warning_counts (fst (mute_user ok md chat user mins reason t1 t2)) = mod_warning_counts md
   \<and> (has_key (mod_warning_counts md) (chat, user)
        \<and> \<not> has_key (mod_warning_counts (mod_step cfg ok md op)) (chat, user)
      \<longrightarrow> op = ClearUserWarnings chat user)
   \<and> (op \<noteq> ClearUserWarnings chat user
      \<longrightarrow> dd_get (mod_warning_counts (mod_step cfg ok md op)) (chat, user) 0
              = dd_get (mod_warning_counts md) (chat, user) 0
          \<or> dd_get (mod_warning_counts (mod_step cfg ok md op)) (chat, user) 0
              = dd_get (mod_warning_counts md) (chat, user) 0 + 1)
   \<and> \<not> has_key (mod_warning_counts (clear_user_warnings md chat user)) (chat, user)
   \<and> (dd_get (mod_warning_counts md) (chat, user) 0 = 0 \<and> (\<forall>call. ok call)
      \<longrightarrow> dd_get (mod_warning_counts (fst (warn_run ok md chat user [(a1, b1), (a2, b2), (a3, b3)])))
              (chat, user) 0 = 3
          \<and> map_of (muted_users (fst (warn_run ok md chat user [(a1, b1), (a2, b2), (a3, b3)]))) (chat, user)
              = Some (b3 + minutes 60)
          \<and> muted_users (fst (warn_run ok md chat user [(a1, b1), (a2, b2)])) = muted_users md)"
proof -
  let ?n = "dd_get (mod_warning_counts md) (chat, user) 0 + 1"
  let ?notice = "SendMessage chat (WarningNotice ?n user reason)"
  have p1: "dd_get (mod_warning_counts (fst (warn_user ok md chat user reason t1 t2))) (chat, user) 0 = ?n"
    by (rule warn_user_count)
  have p2: "(\<exists>rest. snd (warn_user ok md chat user reason t1 t2)
              = ?notice # RestrictMember chat user False (Some (t1 + minutes 60)) # rest)
          \<and> (ok (RestrictMember chat user False (Some (t1 + minutes 60)))
               \<longrightarrow> map_of (muted_users (fst (warn_user ok md chat user reason t1 t2))) (chat, user)
                     = Some (t2 + minutes 60))"
    if "ok ?notice \<and> ?n \<ge> 3"
    using warn_user_escalates [where ok = ok and md = md and chat = chat and user = user and reason = reason
      and ?t1.0 = t1 and ?t2.0 = t2] that by blast
  have p3: "snd (warn_user ok md chat user reason t1 t2) = [?notice]
          \<and> muted_users (fst (warn_user ok md chat user reason t1 t2)) = muted_users md"
    if "\<not> ok ?notice \<or> ?n < 3"
    using warn_user_quiet [where ok = ok and md = md and chat = chat and user = user and reason = reason
      and ?t1.0 = t1 and ?t2.0 = t2, OF that] by blast
  have p4: "mod_warning_counts (fst (mute_user ok md chat user mins reason t1 t2)) = mod_warning_counts md"
    by (rule mute_user_counts)
  have p5: "op = ClearUserWarnings chat user"
    if "has_key (mod_warning_counts md) (chat, user)
        \<and> \<not> has_key (mod_warning_counts (mod_step cfg ok md op)) (chat, user)"
    using mod_step_keeps_warnings [where md = md and key = "(chat, user)" and cfg = cfg and ok = ok and op = op]
      that by simp
  have p6: "\<not> has_key (mod_warning_counts (clear_user_warnings md chat user)) (chat, user)"
    by (rule clear_user_warnings_clears)
  have p8: "dd_get (mod_warning_counts (mod_step cfg ok md op)) (chat, user) 0
              = dd_get (mod_warning_counts md) (chat, user) 0
          \<or> dd_get (mod_warning_counts (mod_step cfg ok md op)) (chat, user) 0
              = dd_get (mod_warning_counts md) (chat, user) 0 + 1"
    if "op \<noteq> ClearUserWarnings chat user"
    using that by (rule mod_step_count_not_lowered)
  have p7: "dd_get (mod_warning_counts (fst (warn_run ok md chat user [(a1, b1), (a2, b2), (a3, b3)])))
              (chat, user) 0 = 3
          \<and> map_of (muted_users (fst (warn_run ok md chat user [(a1, b1), (a2, b2), (a3, b3)]))) (chat, user)
              = Some (b3 + minutes 60)
          \<and> muted_users (fst (warn_run ok md chat user [(a1, b1), (a2, b2)])) = muted_users md"
    if "dd_get (mod_warning_counts md) (chat, user) 0 = 0 \<and> (\<forall>call. ok call)"
  proof -
    from that have z: "dd_get (mod_warning_counts md) (chat, user) 0 = 0" and a: "\<forall>call. ok call"
      by blast+
    show ?thesis
      using warn_run_three(1,2) [OF z a, where ?a1.0 = a1 and ?b1.0 = b1 and ?a2.0 = a2 and ?b2.0 = b2
          and ?a3.0 = a3 and ?b3.0 = b3]
        warn_run_three(3) [OF z a, where ?a1.0 = a1 and ?b1.0 = b1 and ?a2.0 = a2 and ?b2.0 = b2]
      by blast
  qed
  show ?thesis
    apply (intro conjI impI)
    subgoal by (rule p1)
    subgoal using p2 by blast
    subgoal using p2 by blast
    subgoal using p3 by blast
    subgoal using p3 by blast
    subgoal by (rule p4)
    subgoal using p5 by blast
    subgoal using p8 by blast
    subgoal by (rule p6)
    subgoal using p7 by blast
    subgoal using p7 by blast
    subgoal using p7 by blast
    done
qed

text \<open>
  The theorem at a user with two warnings on a transport that accepts every request, and
  at three warnings in a row from the initial state.
\<close>

theorem warning_escalation_witness:
  "dd_get (mod_warning_counts (fst (warn_user all_ok two_warnings 100 7 ''r'' 10 11))) (100, 7) 0 = 3
   \<and> map_of (muted_users (fst (warn_user all_ok two_warnings 100 7 ''r'' 10 11))) (100, 7)
       = Some (11 + minutes 60)
   \<and> map_of (muted_users (fst (warn_run all_ok moderation_init 100 7 [(1, 2), (3, 4), (5, 6)]))) (100, 7)
       = Some (6 + minutes 60)
   \<and> muted_users (fst (warn_run all_ok moderation_init 100 7 [(1, 2), (3, 4)])) = []"
proof -
  have two: "dd_get (mod_warning_counts two_warnings) (100, 7) 0 = 2"
    by (simp add: two_warnings_def dd_get_def)
  have zero: "dd_get (mod_warning_counts moderation_init) (100, 7) 0 = 0"
    by (simp add: moderation_init_def dd_get_def)
  have ok: "\<forall>call. all_ok call"
    by (simp add: all_ok_def)
  have m0: "muted_users moderation_init = []"
    by (simp add: moderation_init_def)
  note a = warning_escalation [where ok = all_ok and md = two_warnings and chat = 100 and user = 7
      and reason = "''r''" and ?t1.0 = 10 and ?t2.0 = 11]
  note b = warning_escalation [where ok = all_ok and md = moderation_init and chat = 100 and user = 7
      and ?a1.0 = 1 and ?b1.0 = 2 and ?a2.0 = 3 and ?b2.0 = 4 and ?a3.0 = 5 and ?b3.0 = 6]
  from a have a1: "dd_get (mod_warning_counts (fst (warn_user all_ok two_warnings 100 7 ''r'' 10 11))) (100, 7) 0 = 3"
    by (simp add: two)
  from a ok have a2: "map_of (muted_users (fst (warn_user all_ok two_warnings 100 7 ''r'' 10 11))) (100, 7)
       = Some (11 + minutes 60)"
    by (simp add: two)
  from b zero ok have b1: "map_of (muted_users (fst (warn_run all_ok moderation_init 100 7 [(1, 2), (3, 4), (5, 6)]))) (100, 7)
       = Some (6 + minutes 60)"
    by blast
  from b zero ok have "muted_users (fst (warn_run all_ok moderation_init 100 7 [(1, 2), (3, 4)]))
       = muted_users moderation_init"
    by blast
  then have b2: "muted_users (fst (warn_run all_ok moderation_init 100 7 [(1, 2), (3, 4)])) = []"
    by (simp only: m0)
  from a1 a2 b1 b2 show ?thesis by blast
qed

text \<open>
  Claim C6. The claim holds of the code while the transport accepts the warning notice,
  and the code breaks it when the notice is refused: \<open>_warn_user\<close> awaits \<open>send_message\<close>
  and then tests \<open>warning_count >= 3\<close> inside one \<open>try\<close>, so an exception of the send skips
  the mute that the comment \<open>Auto-mute after 3 warnings\<close> and the notice itself announce.
  For a user with two warnings in a chat whose transport refuses the notice, the third
  warning is counted, the only request is the refused notice, and no mute is recorded; on
  a transport that accepts every request the same warning requests the 60-minute
  restriction and records the mute.
\<close>

theorem third_warning_send_refused:
  "warn_user no_send two_warnings 100 7 ''r'' 10 11
     = (two_warnings\<lparr> mod_warning_counts := [((100, 7), 3)] \<rparr>,
        [SendMessage 100 (WarningNotice 3 7 ''r'')])
   \<and> muted_users (fst (warn_user no_send two_warnings 100 7 ''r'' 10 11)) = []
   \<and> warn_user all_ok two_warnings 100 7 ''r'' 10 11
     = (two_warnings\<lparr> mod_warning_counts := [((100, 7), 3)],
                        muted_users := [((100, 7), 11 + minutes 60)] \<rparr>,
        [SendMessage 100 (WarningNotice 3 7 ''r''),
         RestrictMember 100 7 False (Some (10 + minutes 60)),
         SendMessage 100 (MuteNotice 7 60 ''3 peringatan spam'')])"
  by (simp add: warn_user_def mute_user_def two_warnings_def no_send_def all_ok_def dd_get_def Let_def)

section \<open>Properties of the account verification\<close>

lemma verify_enabled:
  assumes "ENABLE_USER_VERIFICATION cfg"
  shows "fst (fst (verify_user_account cfg sec user)) = (trust_score user < 3)"
    and "snd (verify_user_account cfg sec user)
          = (if trust_score user < 3 then sec
             else sec\<lparr> sec_suspicious_users := finsert (tg_id user) (sec_suspicious_users sec) \<rparr>)"
proof -
  have score: "fst (add_signal (is_suspicious_name (tg_first_name user)) 1 [''suspicious_name'']
         (add_signal (has_username user \<and> is_suspicious_username (the (tg_username user))) 2 [''suspicious_username'']
           (add_signal (tg_id user > 5000000000) 2 [''potentially_new_account'']
             (add_signal (\<not> has_username user) 1 [''no_username''] (0, []))))) = trust_score user"
    by (simp add: fst_add_signal trust_score_def)
  show "fst (fst (verify_user_account cfg sec user)) = (trust_score user < 3)"
    using assms unfolding verify_user_account_def Let_def score by simp
  show "snd (verify_user_account cfg sec user)
          = (if trust_score user < 3 then sec
             else sec\<lparr> sec_suspicious_users := finsert (tg_id user) (sec_suspicious_users sec) \<rparr>)"
    using assms unfolding verify_user_account_def Let_def score by simp
qed

lemma verify_disabled:
  "\<not> ENABLE_USER_VERIFICATION cfg \<Longrightarrow>
   verify_user_account cfg sec user = ((True, ''verification_disabled''), sec)"
  by (simp add: verify_user_account_def)

lemma bot12345_suspicious: "is_suspicious_username ''bot12345''"
  by code_simp

lemma bot12345_digits: "(of_nat (length (filter is_digit ''bot12345'')) :: rat) / of_nat (length ''bot12345'') > 1 / 2"
  by code_simp

lemma bot12345_token: "contains ''bot'' (lower ''bot12345'')"
  by code_simp

lemma alice_wong_clean: "\<not> is_suspicious_username ''alice_wong''"
  by code_simp

lemma is_suspicious_username_iff:
  "is_suspicious_username name =
     ((\<exists>pattern \<in> set [''bot'', ''spam'', ''fake'', ''test'', ''promo'', ''ad'', ''marketing''].
          contains pattern (lower name))
      \<or> (name \<noteq> [] \<and> (of_nat (length (filter is_digit name)) :: rat) / of_nat (length name) > 1 / 2))"
  unfolding is_suspicious_username_def Let_def list_ex_iff by auto

lemma is_suspicious_name_iff:
  "is_suspicious_name name =
     (name = []
      \<or> (of_nat (length (filter (\<lambda>c. \<not> is_alnum c \<and> \<not> is_space c) name)) :: rat) / of_nat (length name) > 3 / 10
      \<or> (\<exists>word \<in> set [''free'', ''win'', ''prize'', ''money'', ''bitcoin'', ''crypto''].
            contains word (lower name)))"
  unfolding is_suspicious_name_def Let_def list_ex_iff by auto

lemma eloise_first_name: "\<not> is_suspicious_name (tg_first_name eloise)"
  by code_simp

text \<open>
  Claim C8, as the code has it. While \<open>ENABLE_USER_VERIFICATION\<close> is set, the verification
  answers verified exactly when the additive score (no username 1, id above 5000000000 2,
  suspicious username 2, suspicious first name 1) is below 3, adds the id to the suspicious
  set when it is not and leaves the set as it was when it is. With the switch off it
  answers verified with the reason \<open>verification_disabled\<close> and touches nothing. A username
  is suspicious exactly when its lowered text contains one of the seven tokens or more than
  half of its characters are digits; a first name is suspicious exactly when it is empty,
  more than three tenths of its characters are neither alphanumeric nor whitespace, or its
  lowered text contains one of the six promotional words. The username \<open>bot12345\<close> is
  suspicious, by the token \<open>bot\<close> and by its digit density of 5/8, and \<open>alice_wong\<close> is not.
  The names are those of the model, every sequence of code points below 256, with the
  character classes of Python.
\<close>

theorem account_verification:
  "(ENABLE_USER_VERIFICATION cfg \<longrightarrow>
      fst (fst (verify_user_account cfg sec user)) = (trust_score user < 3)
      \<and> (\<not> fst (fst (verify_user_account cfg sec user)) \<longrightarrow>
            sec_suspicious_users (snd (verify_user_account cfg sec user))
              = finsert (tg_id user) (sec_suspicious_users sec))
      \<and> (fst (fst (verify_user_account cfg sec user)) \<longrightarrow> snd (verify_user_account cfg sec user) = sec))
   \<and> (\<not> ENABLE_USER_VERIFICATION cfg \<longrightarrow>
      verify_user_account cfg sec user = ((True, ''verification_disabled''), sec))
   \<and> is_suspicious_username name =
        ((\<exists>pattern \<in> set [''bot'', ''spam'', ''fake'', ''test'', ''promo'', ''ad'', ''marketing''].
             contains pattern (lower name))
         \<or> (name \<noteq> [] \<and> (of_nat (length (filter is_digit name)) :: rat) / of_nat (length name) > 1 / 2))
   \<and> is_suspicious_name first_name =
        (first_name = []
         \<or> (of_nat (length (filter (\<lambda>c. \<not> is_alnum c \<and> \<not> is_space c) first_name)) :: rat)
               / of_nat (length first_name) > 3 / 10
         \<or> (\<exists>word \<in> set [''free'', ''win'', ''prize'', ''money'', ''bitcoin'', ''crypto''].
               contains word (lower first_name)))
   \<and> is_suspicious_username ''bot12345''
   \<and> contains ''bot'' (lower ''bot12345'')
   \<and> (of_nat (length (filter is_digit ''bot12345'')) :: rat) / of_nat (length ''bot12345'') > 1 / 2
   \<and> \<not> is_suspicious_username ''alice_wong''"
proof -
  note e = verify_enabled [of cfg sec user]
  note d = verify_disabled [of cfg sec user]
  have p1: "fst (fst (verify_user_account cfg sec user)) = (trust_score user < 3)
      \<and> (\<not> fst (fst (verify_user_account cfg sec user)) \<longrightarrow>
            sec_suspicious_users (snd (verify_user_account cfg sec user))
              = finsert (tg_id user) (sec_suspicious_users sec))
      \<and> (fst (fst (verify_user_account cfg sec user)) \<longrightarrow> snd (verify_user_account cfg sec user) = sec)"
    if "ENABLE_USER_VERIFICATION cfg"
    using e [OF that] by simp
  show ?thesis
    apply (intro conjI impI)
    subgoal using p1 by blast
    subgoal using p1 by blast
    subgoal using p1 by blast
    subgoal using d by blast
    subgoal by (rule is_suspicious_username_iff)
    subgoal by (rule is_suspicious_name_iff)
    subgoal by (rule bot12345_suspicious)
    subgoal by (rule bot12345_token)
    subgoal by (rule bot12345_digits)
    subgoal by (rule alice_wong_clean)
    done
qed

text \<open>
  Claim C8 states the equivalence for every identity. With \<open>ENABLE_USER_VERIFICATION\<close> off,
  an identity with a high id and no username has score 3 and is answered verified; its id
  is not added to the suspicious set.
\<close>

theorem verification_gate_counterexample:
  "trust_score fresh_anonymous = 3
   \<and> verify_user_account verification_off_config security_init fresh_anonymous
       = ((True, ''verification_disabled''), security_init)"
  by code_simp

text \<open>
  The theorem at the default configuration: an identity with a high id and no username,
  one with a low id, a username and a plain first name, and one with a high id and a first
  name with accented letters; and at the first identity with the verification switched off.
\<close>

theorem account_verification_witness:
  "\<not> fst (fst (verify_user_account (default_config 1 []) security_init fresh_anonymous))
   \<and> sec_suspicious_users (snd (verify_user_account (default_config 1 []) security_init fresh_anonymous))
       = {|6000000000|}
   \<and> fst (fst (verify_user_account (default_config 1 []) security_init alice))
   \<and> snd (verify_user_account (default_config 1 []) security_init alice) = security_init
   \<and> verify_user_account verification_off_config security_init fresh_anonymous
       = ((True, ''verification_disabled''), security_init)
   \<and> fst (fst (verify_user_account (default_config 1 []) security_init eloise))"
proof -
  have s3: "trust_score eloise = 2"
    by code_simp
  note el = account_verification [where cfg = "default_config 1 []" and sec = security_init and user = eloise]
  have off: "\<not> ENABLE_USER_VERIFICATION verification_off_config"
    by (simp add: verification_off_config_def default_config_def)
  note c = account_verification [where cfg = verification_off_config and sec = security_init
      and user = fresh_anonymous]
  from c off have c1: "verify_user_account verification_off_config security_init fresh_anonymous
       = ((True, ''verification_disabled''), security_init)"
    by blast
  have on: "ENABLE_USER_VERIFICATION (default_config 1 [])"
    by (simp add: default_config_def)
  have s1: "trust_score fresh_anonymous = 3"
    by code_simp
  have s2: "trust_score alice = 0"
    by code_simp
  have i1: "tg_id fresh_anonymous = 6000000000"
    by (simp add: fresh_anonymous_def)
  have e: "sec_suspicious_users security_init = {||}"
    by (simp add: security_init_def)
  note a = account_verification [where cfg = "default_config 1 []" and sec = security_init and user = fresh_anonymous]
  note b = account_verification [where cfg = "default_config 1 []" and sec = security_init and user = alice]
  from a on have a1: "\<not> fst (fst (verify_user_account (default_config 1 []) security_init fresh_anonymous))"
    by (simp add: s1)
  from a on a1 have a2: "sec_suspicious_users (snd (verify_user_account (default_config 1 []) security_init fresh_anonymous))
       = {|6000000000|}"
    by (simp add: i1 e)
  from b on have b1: "fst (fst (verify_user_account (default_config 1 []) security_init alice))"
    by (simp add: s2)
  from b on b1 have b2: "snd (verify_user_account (default_config 1 []) security_init alice) = security_init"
    by simp
  from el on have e1: "fst (fst (verify_user_account (default_config 1 []) security_init eloise))"
    by (simp add: s3)
  from a1 a2 b1 b2 c1 e1 show ?thesis by blast
qed

section \<open>Properties of the snapshots\<close>

lemma update_fresh: "k \<notin> fst ` set d \<Longrightarrow> AList.update k v d = d @ [(k, v)]"
  by (induction d) auto

lemma load_items_roundtrip:
  assumes "\<And>v. v \<in> snd ` set d \<Longrightarrow> conv (enc v) = Inr v"
    and "distinct (map fst (acc @ d))"
  shows "load_items conv (map (\<lambda>(k, v). (str_of_int k, enc v)) d) acc = Inr (acc @ d)"
  using assms
proof (induction d arbitrary: acc)
  case Nil
  then show ?case by simp
next
  case (Cons kv d)
  obtain k v where kv: "kv = (k, v)" by (cases kv)
  have fresh: "k \<notin> fst ` set acc"
    using Cons.prems(2) kv by auto
  have c: "conv (enc v) = Inr v"
    using Cons.prems(1) kv by force
  have d: "distinct (map fst ((acc @ [(k, v)]) @ d))"
    using Cons.prems(2) kv by auto
  have ih: "load_items conv (map (\<lambda>(k, v). (str_of_int k, enc v)) d) (acc @ [(k, v)]) = Inr ((acc @ [(k, v)]) @ d)"
    by (rule Cons.IH) (use Cons.prems(1) d in auto)
  show ?case
    using ih by (simp add: kv bind_def int_of_str_def str_of_int_def c update_fresh [OF fresh])
qed

lemma all_ok_list_iso: "all_ok_list fromisoformat (map isoformat xs) = Inr xs"
  by (induction xs) (simp_all add: bind_def fromisoformat_def isoformat_def)

lemma stats_roundtrip: "stats_of_json (stats_to_json v) = Inr v"
  by (cases "last_spam_check v")
     (simp_all add: stats_of_json_def stats_to_json_def bind_def required_def fromisoformat_def
        isoformat_def or_default_def truthy_def)

lemma fset_roundtrip: "fset_of_list (sorted_list_of_fset S) = S"
  by (metis fset_of_list.rep_eq fset_inject sorted_list_of_fset_simps(1))

lemma from_dict_to_dict:
  assumes "dict_ok b"
  shows "from_dict cfg (to_dict b) sid1 sid2 now = Inr (restored b)"
proof -
  from assms have d1: "distinct (map fst ([] @ banned_users b))"
    and d2: "distinct (map fst ([] @ group_states b))"
    and d3: "distinct (map fst ([] @ user_stats b))"
    and d4: "distinct (map fst ([] @ spam_violations b))"
    by (simp_all add: dict_ok_def)
  have l1: "load_items fromisoformat (map (\<lambda>(k, v). (str_of_int k, isoformat v)) (banned_users b)) []
      = Inr (banned_users b)"
    using load_items_roundtrip [where conv = fromisoformat and enc = isoformat, OF _ d1]
    by (simp add: fromisoformat_def isoformat_def)
  have l2: "load_items Inr (map (\<lambda>(k, v). (str_of_int k, v)) (group_states b)) [] = Inr (group_states b)"
    using load_items_roundtrip [where conv = Inr and enc = "\<lambda>v. v", OF _ d2] by simp
  have l3: "load_items stats_of_json (map (\<lambda>(k, v). (str_of_int k, stats_to_json v)) (user_stats b)) []
      = Inr (user_stats b)"
    using load_items_roundtrip [where conv = stats_of_json and enc = stats_to_json, OF _ d3]
    by (simp add: stats_roundtrip)
  have l4: "load_items (all_ok_list fromisoformat)
       (map (\<lambda>(k, v). (str_of_int k, map isoformat v)) (spam_violations b)) [] = Inr (spam_violations b)"
    using load_items_roundtrip [where conv = "all_ok_list fromisoformat" and enc = "map isoformat", OF _ d4]
    by (simp add: all_ok_list_iso)
  have r: "restored b =
      \<lparr> session_id = session_id b, owner_id = owner_id b, approved_users = approved_users b,
        banned_users = banned_users b, group_states = group_states b,
        chat_history = last_n 100 (chat_history b), user_stats = user_stats b,
        spam_violations = spam_violations b, message_hashes = [], user_message_counts = [],
        rate_limit_violations = [], api_call_counts = [], failed_verifications = [],
        suspicious_users = suspicious_users b, session_start_time = session_start_time b,
        last_backup_time = last_backup_time b \<rparr>"
    by (cases b) (simp add: restored_def)
  show ?thesis
    unfolding r
    apply (simp add: from_dict_def to_dict_def Let_def or_default_def BotData_def l1 l2 l3 l4 bind_def)
    apply (cases "last_backup_time b")
     apply (simp_all add: truthy_def required_def fromisoformat_def isoformat_def fset_roundtrip bind_def)
    done
qed

text \<open>
  Claim C7, as the code has it. \<open>from_dict\<close> of \<open>to_dict\<close> of a state succeeds and gives
  the state back in the fields session id, owner id, approved users, banned users, group
  states, user statistics, spam violations, suspicious users, session start and last
  backup time; the chat history comes back cut to its last 100 entries, and the message
  hashes, user message counts, rate limit violations, API call counts and failed
  verifications come back empty. A state with at most 100 history entries and those five
  tables empty comes back equal.
\<close>

theorem snapshot_round_trip:
  assumes "dict_ok b"
  shows "from_dict cfg (to_dict b) sid1 sid2 now = Inr (restored b)
         \<and> (length (chat_history b) \<le> 100 \<and> message_hashes b = [] \<and> user_message_counts b = []
              \<and> rate_limit_violations b = [] \<and> api_call_counts b = [] \<and> failed_verifications b = []
            \<longrightarrow> from_dict cfg (to_dict b) sid1 sid2 now = Inr b)"
proof -
  have "restored b = b"
    if "length (chat_history b) \<le> 100 \<and> message_hashes b = [] \<and> user_message_counts b = []
        \<and> rate_limit_violations b = [] \<and> api_call_counts b = [] \<and> failed_verifications b = []"
    using that by (cases b) (simp add: restored_def last_n_def)
  then show ?thesis
    using from_dict_to_dict [OF assms, of cfg sid1 sid2 now] by auto
qed

lemma populated_ok: "dict_ok populated"
  by (simp add: dict_ok_def populated_def)

lemma populated_restored: "restored populated = populated\<lparr> user_message_counts := [] \<rparr>"
  by (simp add: restored_def populated_def last_n_def)

lemma populated_changed: "populated\<lparr> user_message_counts := [] \<rparr> \<noteq> populated"
proof
  assume "populated\<lparr> user_message_counts := [] \<rparr> = populated"
  then have "user_message_counts (populated\<lparr> user_message_counts := [] \<rparr>) = user_message_counts populated"
    by simp
  then show False by (simp add: populated_def)
qed

text \<open>
  Claim C7 states field-for-field equality after the round trip. A state in which user 7
  has one entry in the user message counts comes back with that table empty.
\<close>

theorem round_trip_counterexample:
  "from_dict (default_config 1 []) (to_dict populated) ''111111'' ''222222'' 99
      = Inr (populated\<lparr> user_message_counts := [] \<rparr>)
   \<and> from_dict (default_config 1 []) (to_dict populated) ''111111'' ''222222'' 99 \<noteq> Inr populated"
  using from_dict_to_dict [OF populated_ok, of "default_config 1 []" "''111111''" "''222222''" 99]
    populated_changed
  by (simp add: populated_restored)

text \<open>The theorem at the populated state, and at that state without its message counts.\<close>

theorem snapshot_round_trip_witness:
  "from_dict (default_config 1 []) (to_dict populated) ''111111'' ''222222'' 99 = Inr (restored populated)
   \<and> from_dict (default_config 1 []) (to_dict (populated\<lparr> user_message_counts := [] \<rparr>)) ''111111'' ''222222'' 99
       = Inr (populated\<lparr> user_message_counts := [] \<rparr>)"
proof -
  have ok2: "dict_ok (populated\<lparr> user_message_counts := [] \<rparr>)"
    by (simp add: dict_ok_def populated_def)
  have small: "length (chat_history (populated\<lparr> user_message_counts := [] \<rparr>)) \<le> 100
      \<and> message_hashes (populated\<lparr> user_message_counts := [] \<rparr>) = []
      \<and> user_message_counts (populated\<lparr> user_message_counts := [] \<rparr>) = []
      \<and> rate_limit_violations (populated\<lparr> user_message_counts := [] \<rparr>) = []
      \<and> api_call_counts (populated\<lparr> user_message_counts := [] \<rparr>) = []
      \<and> failed_verifications (populated\<lparr> user_message_counts := [] \<rparr>) = []"
    by (simp add: populated_def)
  from snapshot_round_trip [OF populated_ok, of "default_config 1 []" "''111111''" "''222222''" 99]
  have a: "from_dict (default_config 1 []) (to_dict populated) ''111111'' ''222222'' 99 = Inr (restored populated)"
    by blast
  from snapshot_round_trip [OF ok2, of "default_config 1 []" "''111111''" "''222222''" 99] small
  have b: "from_dict (default_config 1 []) (to_dict (populated\<lparr> user_message_counts := [] \<rparr>)) ''111111'' ''222222'' 99
       = Inr (populated\<lparr> user_message_counts := [] \<rparr>)"
    by blast
  from a b show ?thesis by blast
qed








end
